theory Spec2Isabelle
  imports Complex_Main
begin

section \<open>Strings\<close>

text \<open>
  A JavaScript string is modelled as a \<open>string\<close>: each \<open>char\<close> stands for the code
  unit of the same number, so the model covers the texts whose code units are below 256
  (ASCII and Latin-1).
\<close>

definition isWhiteSpace :: "char \<Rightarrow> bool" where
  \<comment> \<open>the white space of the pattern language and of \<open>trim\<close>, below U+0100\<close>
  "isWhiteSpace c = (let n = (of_char c :: nat) in (9 \<le> n \<and> n \<le> 13) \<or> n = 32 \<or> n = 160)"


definition isDigit :: "char \<Rightarrow> bool" where
  "isDigit c = (let n = (of_char c :: nat) in 48 \<le> n \<and> n \<le> 57)"

definition lowerChar :: "char \<Rightarrow> char" where
  "lowerChar c = (let n = (of_char c :: nat) in
     if (65 \<le> n \<and> n \<le> 90) \<or> (192 \<le> n \<and> n \<le> 222 \<and> n \<noteq> 215) then char_of (n + 32) else c)"

definition toLowerCase :: "string \<Rightarrow> string" where
  "toLowerCase s = map lowerChar s"

definition trim :: "string \<Rightarrow> string" where
  "trim s = rev (dropWhile isWhiteSpace (rev (dropWhile isWhiteSpace s)))"

fun startsWith :: "string \<Rightarrow> string \<Rightarrow> bool" where
  "startsWith s [] = True"
| "startsWith [] (k # ks) = False"
| "startsWith (c # cs) (k # ks) = (c = k \<and> startsWith cs ks)"

fun includes_str :: "string \<Rightarrow> string \<Rightarrow> bool" where
  \<comment> \<open>\<open>s.includes(k)\<close>\<close>
  "includes_str [] k = (k = [])"
| "includes_str (c # cs) k = (startsWith (c # cs) k \<or> includes_str cs k)"

fun replaceFirst :: "string \<Rightarrow> string \<Rightarrow> string" where
  \<comment> \<open>\<open>s.replace(p, "")\<close> with a string pattern: the first occurrence is removed\<close>
  "replaceFirst [] p = []"
| "replaceFirst (c # cs) p =
     (if startsWith (c # cs) p then drop (length p) (c # cs) else c # replaceFirst cs p)"

definition substring :: "string \<Rightarrow> nat \<Rightarrow> nat \<Rightarrow> string" where
  \<comment> \<open>\<open>s.substring(a, b)\<close>: the bounds are swapped when \<open>b < a\<close> and clamped to the length\<close>
  "substring s a b = take (max a b - min a b) (drop (min a b) s)"

section \<open>Regular expressions\<close>

text \<open>
  The patterns of the source use literals, character classes, sequence, alternation,
  greedy bounded and unbounded repetition and one capture group. \<open>rmatch\<close> lists, in
  the order a backtracking matcher tries them, every way a pattern matches at the start of
  the input: the capture (if the group took part) and the rest of the input. The head of
  the list is the match that \<open>exec\<close> reports.
\<close>

datatype regex =
    Lit char
  | Cls "(nat \<times> nat) list"
  | Eps
  | Seq regex regex
  | Alt regex regex
  | Rep nat "nat option" regex
  | Grp regex

definition canonicalize :: "char \<Rightarrow> char" where
  \<comment> \<open>the case folding of the \<open>i\<close> flag: to upper case\<close>
  "canonicalize c = (let n = (of_char c :: nat) in
     if (97 \<le> n \<and> n \<le> 122) \<or> (224 \<le> n \<and> n \<le> 254 \<and> n \<noteq> 247) then char_of (n - 32) else c)"

definition in_ranges :: "(nat \<times> nat) list \<Rightarrow> char \<Rightarrow> bool" where
  "in_ranges rs c = list_ex (\<lambda>(lo, hi). lo \<le> of_char c \<and> (of_char c :: nat) \<le> hi) rs"

definition lit_matches :: "bool \<Rightarrow> char \<Rightarrow> char \<Rightarrow> bool" where
  "lit_matches ic p c = (p = c \<or> (ic \<and> canonicalize p = canonicalize c))"

definition cls_matches :: "bool \<Rightarrow> (nat \<times> nat) list \<Rightarrow> char \<Rightarrow> bool" where
  "cls_matches ic rs c =
     (in_ranges rs c \<or> (ic \<and> (in_ranges rs (canonicalize c) \<or> in_ranges rs (lowerChar (canonicalize c)))))"

definition later :: "string option \<Rightarrow> string option \<Rightarrow> string option" where
  "later c1 c2 = (case c2 of Some x \<Rightarrow> Some x | None \<Rightarrow> c1)"

fun rsize :: "regex \<Rightarrow> nat" where
  "rsize (Seq a b) = Suc (rsize a + rsize b)"
| "rsize (Alt a b) = Suc (rsize a + rsize b)"
| "rsize (Rep m n r) = Suc (rsize r)"
| "rsize (Grp r) = Suc (rsize r)"
| "rsize _ = 0"

fun rmin :: "regex \<Rightarrow> nat" where
  "rmin (Rep m n r) = m"
| "rmin _ = 0"

function rmatch :: "bool \<Rightarrow> regex \<Rightarrow> string \<Rightarrow> (string option \<times> string) list" where
  "rmatch ic (Lit p) s =
     (case s of [] \<Rightarrow> [] | c # cs \<Rightarrow> if lit_matches ic p c then [(None, cs)] else [])"
| "rmatch ic (Cls rs) s =
     (case s of [] \<Rightarrow> [] | c # cs \<Rightarrow> if cls_matches ic rs c then [(None, cs)] else [])"
| "rmatch ic Eps s = [(None, s)]"
| "rmatch ic (Seq a b) s =
     concat (map (\<lambda>(c1, s1). map (\<lambda>(c2, s2). (later c1 c2, s2)) (rmatch ic b s1)) (rmatch ic a s))"
| "rmatch ic (Alt a b) s = rmatch ic a s @ rmatch ic b s"
| "rmatch ic (Grp r) s =
     map (\<lambda>(c, s'). (Some (take (length s - length s') s), s')) (rmatch ic r s)"
| "rmatch ic (Rep mn mx r) s =
     (if mx = Some 0 then [(None, s)]
      else concat (map (\<lambda>(c1, s1).
                     if mn = 0 \<and> length s \<le> length s1 then []
                     else map (\<lambda>(c2, s2). (later c1 c2, s2))
                            (rmatch ic (Rep (mn - 1) (map_option (\<lambda>n. n - 1) mx) r) s1))
                   (rmatch ic r s))
           @ (if mn = 0 then [(None, s)] else []))"
  by pat_completeness auto
termination
  by (relation "measures [\<lambda>(ic, r, s). rsize r, \<lambda>(ic, r, s). rmin r, \<lambda>(ic, r, s). length s]")
     auto

text \<open>
  A repetition whose minimum is reached gives up an iteration that consumed nothing, as
  the language's matcher does; the test is on the lengths, the rest being a suffix of the
  input.
\<close>

record regmatch =
  match_index :: nat
  match_text :: string
  match_group :: "string option"

fun search :: "bool \<Rightarrow> regex \<Rightarrow> nat \<Rightarrow> string \<Rightarrow> (regmatch \<times> string) option" where
  \<comment> \<open>the first match at or after position \<open>i\<close>, \<open>s\<close> being the input from \<open>i\<close> on\<close>
  "search ic r i [] =
     (case rmatch ic r [] of
        (g, rest) # _ \<Rightarrow> Some (\<lparr>match_index = i, match_text = [], match_group = g\<rparr>, rest)
      | [] \<Rightarrow> None)"
| "search ic r i (c # cs) =
     (case rmatch ic r (c # cs) of
        (g, rest) # _ \<Rightarrow>
          Some (\<lparr>match_index = i, match_text = take (length (c # cs) - length rest) (c # cs),
                 match_group = g\<rparr>, rest)
      | [] \<Rightarrow> search ic r (Suc i) cs)"

text \<open>
  The loop \<open>while ((match = regex.exec(text)) !== null)\<close> of a global pattern. A match
  of the empty string leaves \<open>lastIndex\<close> where it is, and the loop then finds the same
  match for ever: that is the value \<open>None\<close>.
\<close>

function execAll :: "bool \<Rightarrow> regex \<Rightarrow> nat \<Rightarrow> string \<Rightarrow> regmatch list option" where
  "execAll ic r i s =
     (case search ic r i s of
        None \<Rightarrow> Some []
      | Some (m, rest) \<Rightarrow>
          if match_text m \<noteq> [] \<and> length rest < length s
          then map_option ((#) m) (execAll ic r (match_index m + length (match_text m)) rest)
          else None)"
  by pat_completeness auto
termination
  by (relation "measure (\<lambda>(ic, r, i, s). length s)") auto


section \<open>Numbers\<close>

text \<open>
  A number of the language is a binary64 floating-point value. A finite one is held as the
  rational it denotes (the two zeros are one value: nothing below depends on the sign of
  zero). \<open>roundDouble\<close> rounds a rational to the nearest such value, ties to the even
  significand, as the arithmetic of the language and the reading of a decimal text do. The
  magnitude is brought to the form \<open>m * 2 ^ p\<close> with \<open>2 ^ 52 \<le> m < 2 ^ 53\<close>, or with
  \<open>p = - 1074\<close> and a smaller \<open>m\<close> for a subnormal value; \<open>m\<close> is rounded to an integer;
  a result of \<open>2 ^ 1024\<close> or more is an infinity.
\<close>

datatype jsnumber = Num rat | NaN | PosInf | NegInf

definition pow2 :: "int \<Rightarrow> rat" where
  "pow2 p = (if 0 \<le> p then 2 ^ nat p else 1 / 2 ^ nat (- p))"

function scaleDown :: "rat \<Rightarrow> int \<Rightarrow> rat \<times> int" where
  \<comment> \<open>halve until the significand is below \<open>2 ^ 53 = 9007199254740992\<close>\<close>
  "scaleDown a e = (if 9007199254740992 \<le> a then scaleDown (a / 2) (e + 1) else (a, e))"
  by pat_completeness auto
termination
proof (relation "measure (\<lambda>(a, e). nat \<lfloor>a\<rfloor>)")
  show "wf (measure (\<lambda>(a, e). nat \<lfloor>a\<rfloor>))" by simp
next
  fix a :: rat and e :: int
  assume a: "9007199254740992 \<le> a"
  have "a / 2 + 1 \<le> a" using a by simp
  then have "\<lfloor>a / 2 + 1\<rfloor> \<le> \<lfloor>a\<rfloor>" by (rule floor_mono)
  then have "\<lfloor>a / 2\<rfloor> < \<lfloor>a\<rfloor>" by simp
  moreover have "0 \<le> \<lfloor>a / 2\<rfloor>" using a by simp
  ultimately have "nat \<lfloor>a / 2\<rfloor> < nat \<lfloor>a\<rfloor>" by linarith
  then show "((a / 2, e + 1), (a, e)) \<in> measure (\<lambda>(a, e). nat \<lfloor>a\<rfloor>)" by simp
qed

function scaleUp :: "rat \<Rightarrow> int \<Rightarrow> rat \<times> int" where
  \<comment> \<open>double until the significand reaches \<open>2 ^ 52 = 4503599627370496\<close> or the exponent
      is the least one\<close>
  "scaleUp a e = (if a < 4503599627370496 \<and> - 1074 < e then scaleUp (2 * a) (e - 1) else (a, e))"
  by pat_completeness auto
termination
  by (relation "measure (\<lambda>(a, e). nat (e + 1074))") auto

definition roundHalfEven :: "rat \<Rightarrow> int" where
  "roundHalfEven m =
     (let f = \<lfloor>m\<rfloor>; r = m - of_int f
      in if r < 1 / 2 then f else if 1 / 2 < r then f + 1 else if even f then f else f + 1)"

definition roundDouble :: "rat \<Rightarrow> jsnumber" where
  "roundDouble q =
     (if q = 0 then Num 0
      else case scaleDown \<bar>q\<bar> 0 of
             (a, e) \<Rightarrow>
               (case scaleUp a e of
                  (m, p) \<Rightarrow>
                    (let v = of_int (roundHalfEven m) * pow2 p
                     in if 2 ^ 1024 \<le> v then (if 0 < q then PosInf else NegInf)
                        else Num (if 0 < q then v else - v))))"

definition negate :: "jsnumber \<Rightarrow> jsnumber" where
  "negate n = (case n of Num r \<Rightarrow> Num (- r) | NaN \<Rightarrow> NaN | PosInf \<Rightarrow> NegInf | NegInf \<Rightarrow> PosInf)"

fun dadd :: "jsnumber \<Rightarrow> jsnumber \<Rightarrow> jsnumber" where
  \<comment> \<open>\<open>x + y\<close> on numbers; adding zero changes nothing\<close>
  "dadd (Num a) (Num b) = (if a = 0 then Num b else if b = 0 then Num a else roundDouble (a + b))"
| "dadd NaN y = NaN"
| "dadd x NaN = NaN"
| "dadd PosInf NegInf = NaN"
| "dadd NegInf PosInf = NaN"
| "dadd PosInf y = PosInf"
| "dadd x PosInf = PosInf"
| "dadd NegInf y = NegInf"
| "dadd x NegInf = NegInf"

definition dsub :: "jsnumber \<Rightarrow> jsnumber \<Rightarrow> jsnumber" where
  \<comment> \<open>\<open>x - y\<close>\<close>
  "dsub x y = dadd x (negate y)"

definition dabs :: "jsnumber \<Rightarrow> jsnumber" where
  \<comment> \<open>\<open>Math.abs\<close>\<close>
  "dabs n = (case n of Num r \<Rightarrow> Num \<bar>r\<bar> | NaN \<Rightarrow> NaN | PosInf \<Rightarrow> PosInf | NegInf \<Rightarrow> PosInf)"

fun dlt :: "jsnumber \<Rightarrow> jsnumber \<Rightarrow> bool" where
  \<comment> \<open>\<open>x < y\<close>: false as soon as one side is not a number\<close>
  "dlt (Num a) (Num b) = (a < b)"
| "dlt (Num a) PosInf = True"
| "dlt NegInf (Num b) = True"
| "dlt NegInf PosInf = True"
| "dlt x y = False"

definition deq :: "jsnumber \<Rightarrow> jsnumber \<Rightarrow> bool" where
  \<comment> \<open>\<open>x === y\<close> on numbers: what is not a number equals nothing\<close>
  "deq x y = (x \<noteq> NaN \<and> x = y)"

definition hundredth :: jsnumber where
  \<comment> \<open>the literal \<open>0.01\<close>\<close>
  "hundredth = roundDouble (1 / 100)"

section \<open>Amount scanning\<close>

definition digit :: regex where
  "digit = Cls [(48, 57)]"

definition space :: regex where
  "space = Cls [(9, 13), (32, 32), (160, 160)]"

definition Star :: "regex \<Rightarrow> regex" where
  "Star r = Rep 0 None r"

definition Plus :: "regex \<Rightarrow> regex" where
  "Plus r = Rep 1 None r"

definition Opt :: "regex \<Rightarrow> regex" where
  "Opt r = Rep 0 (Some 1) r"

fun Str :: "string \<Rightarrow> regex" where
  "Str [] = Eps"
| "Str [c] = Lit c"
| "Str (c # cs) = Seq (Lit c) (Str cs)"

fun Alts :: "regex list \<Rightarrow> regex" where
  "Alts [] = Eps"
| "Alts [r] = r"
| "Alts (r # rs) = Alt r (Alts rs)"

fun Seqs :: "regex list \<Rightarrow> regex" where
  "Seqs [] = Eps"
| "Seqs [r] = r"
| "Seqs (r # rs) = Seq r (Seqs rs)"

definition numberGroup :: regex where
  \<comment> \<open>the group shared by all eleven patterns: one to three digits, groups of a comma and
      three digits, and optionally a dot and two digits\<close>
  "numberGroup =
     Grp (Seqs [Rep 1 (Some 3) digit,
                Star (Seq (Lit CHR '','') (Rep 3 (Some 3) digit)),
                Opt (Seq (Lit CHR ''.'') (Rep 2 (Some 2) digit))])"

definition currencyWord :: regex where
  "currencyWord = Alts [Str ''USD'', Str ''dollars'', Str ''dollar'']"

definition labelled :: "string \<Rightarrow> regex" where
  \<comment> \<open>a label, optionally a colon or the word of, optionally a dollar sign, the number\<close>
  "labelled w =
     Seqs [Str w, Star space, Opt (Alt (Lit CHR '':'') (Seq (Plus space) (Str ''of''))),
           Star space, Opt (Lit CHR ''$''), Star space, numberGroup]"

definition amountRegexes :: "(bool \<times> regex) list" where
  \<comment> \<open>each pattern with its \<open>i\<close> flag, in the order of the source\<close>
  "amountRegexes =
     [(False, Seqs [Lit CHR ''$'', Star space, numberGroup]),
      (True, Seqs [numberGroup, Star space, currencyWord]),
      (True, Seqs [Str ''total'', Star space,
                   Opt (Alts [Str ''amount'', Str ''payment'', Str ''charge'', Str ''price'']),
                   Opt (Alt (Seq (Star space) (Lit CHR '':'')) (Seq (Plus space) (Str ''of''))),
                   Star space, Opt (Lit CHR ''$''), Star space, numberGroup]),
      (True, labelled ''amount''),
      (True, Seqs [Str ''payment'', Star space, Opt (Alt (Str ''of'') (Lit CHR '':'')),
                   Star space, Opt (Lit CHR ''$''), Star space, numberGroup]),
      (True, labelled ''charged''),
      (True, labelled ''price''),
      (True, labelled ''cost''),
      (True, labelled ''bill''),
      (True, labelled ''invoice''),
      (True, Seqs [currencyWord, Star space, numberGroup])]"

definition digitsValue :: "string \<Rightarrow> nat" where
  "digitsValue ds = foldl (\<lambda>a c. 10 * a + (of_char c - 48)) 0 ds"

definition parseFloat :: "string \<Rightarrow> jsnumber" where
  \<comment> \<open>the longest prefix that is digits, optionally a dot and digits, read as a decimal
      and rounded. Signs, exponents and leading white space cannot occur in what the group
      captures.\<close>
  "parseFloat s =
     (let ip = takeWhile isDigit s;
          fp = (case dropWhile isDigit s of
                  [] \<Rightarrow> []
                | c # cs \<Rightarrow> if c = CHR ''.'' then takeWhile isDigit cs else [])
      in if ip = [] \<and> fp = [] then NaN
         else roundDouble (of_nat (digitsValue ip) + of_nat (digitsValue fp) / 10 ^ length fp))"

record AmountMatch =
  m_amount :: jsnumber
  m_text :: string
  m_index :: nat

definition pushAmount :: "AmountMatch list \<Rightarrow> regmatch \<Rightarrow> AmountMatch list" where
  \<comment> \<open>the body of the loop over the matches of one pattern\<close>
  "pushAmount results m =
     (let fullMatch = match_text m;
          numericPart = (case match_group m of Some g \<Rightarrow> g | None \<Rightarrow> []);
          parsed = parseFloat (filter (\<lambda>c. c \<noteq> CHR '','') numericPart)
      in if parsed \<noteq> NaN \<and> dlt (Num 0) parsed
         then results @ [\<lparr>m_amount = parsed, m_text = fullMatch, m_index = match_index m\<rparr>]
         else results)"

fun scanRegexes :: "(bool \<times> regex) list \<Rightarrow> string \<Rightarrow> AmountMatch list \<Rightarrow> AmountMatch list option" where
  "scanRegexes [] t results = Some results"
| "scanRegexes ((ic, r) # rs) t results =
     (case execAll ic r 0 t of
        None \<Rightarrow> None
      | Some ms \<Rightarrow> scanRegexes rs t (foldl pushAmount results ms))"

definition extractAmounts :: "string \<Rightarrow> AmountMatch list option" where
  "extractAmounts t = scanRegexes amountRegexes t []"

section \<open>Category and title\<close>

definition categoryKeywords :: "(string \<times> string list) list" where
  "categoryKeywords =
     [(''food'', [''food'', ''restaurant'', ''meal'', ''lunch'', ''dinner'', ''breakfast'', ''cafe'',
                  ''grocery'', ''groceries'', ''takeout'', ''doordash'', ''uber eats'', ''grubhub'']),
      (''rent'', [''rent'', ''lease'', ''housing'', ''apartment'', ''mortgage'', ''property'']),
      (''travel'', [''travel'', ''flight'', ''hotel'', ''airfare'', ''airline'', ''booking'', ''trip'',
                    ''vacation'', ''uber'', ''lyft'', ''taxi'', ''car rental'']),
      (''utility'', [''utility'', ''electric'', ''water'', ''gas'', ''internet'', ''phone'', ''bill'',
                     ''cable'', ''subscription'']),
      (''entertainment'', [''entertainment'', ''movie'', ''theatre'', ''concert'', ''show'', ''netflix'',
                           ''spotify'', ''hulu'', ''disney+'', ''prime'', ''subscription'']),
      (''shopping'', [''shopping'', ''purchase'', ''amazon'', ''store'', ''retail'', ''mall'', ''online'',
                      ''buy'', ''bought'']),
      (''health'', [''health'', ''medical'', ''doctor'', ''hospital'', ''pharmacy'', ''medicine'',
                    ''prescription'', ''dental'', ''healthcare'']),
      (''education'', [''education'', ''tuition'', ''school'', ''college'', ''university'', ''course'',
                       ''class'', ''book'', ''textbook'']),
      (''gift'', [''gift'', ''present'', ''donation'', ''charity'']),
      (''fitness'', [''fitness'', ''gym'', ''workout'', ''exercise'', ''sport'', ''membership'']),
      (''investment'', [''investment'', ''stock'', ''bond'', ''mutual fund'', ''etf'', ''crypto'',
                        ''bitcoin'', ''ethereum'', ''trading''])]"

fun firstCategory :: "(string \<times> string list) list \<Rightarrow> string \<Rightarrow> string" where
  \<comment> \<open>the two nested loops: the first category, in table order, one of whose keywords occurs\<close>
  "firstCategory [] t = ''unknown''"
| "firstCategory ((category, keywords) # rest) t =
     (if list_ex (includes_str t) keywords then category else firstCategory rest t)"

definition determineCategory :: "string \<Rightarrow> string" where
  "determineCategory t = firstCategory categoryKeywords t"

definition nameChar :: regex where
  \<comment> \<open>letters, digits, white space and the ampersand\<close>
  "nameChar = Cls [(65, 90), (97, 122), (48, 57), (9, 13), (32, 32), (160, 160), (38, 38)]"

definition merchantPatterns :: "regex list" where
  \<comment> \<open>all three carry the \<open>i\<close> flag\<close>
  "merchantPatterns =
     [Seqs [Alts [Str ''purchase'', Str ''payment'', Str ''transaction'', Str ''charge''], Plus space,
            Alts [Str ''at'', Str ''to'', Str ''from''], Plus space, Grp (Plus nameChar)],
      Seqs [Alts [Str ''from'', Str ''at'', Str ''to''], Plus space, Grp (Plus nameChar), Plus space,
            Alts [Str ''on'', Str ''for'']],
      Seqs [Grp (Plus nameChar), Plus space,
            Alts [Str ''store'', Str ''restaurant'', Str ''shop'', Str ''market'']]]"

definition businessNamePattern :: regex where
  \<comment> \<open>an upper-case letter and two to twenty name characters; no \<open>i\<close> flag\<close>
  "businessNamePattern = Grp (Seq (Cls [(65, 90)]) (Rep 2 (Some 20) nameChar))"

fun firstMerchant :: "regex list \<Rightarrow> string \<Rightarrow> string option" where
  \<comment> \<open>the loop over the merchant patterns: the first whose match has a non-empty group\<close>
  "firstMerchant [] t = None"
| "firstMerchant (p # ps) t =
     (case search True p 0 t of
        None \<Rightarrow> firstMerchant ps t
      | Some (m, rest) \<Rightarrow>
          (case match_group m of
             None \<Rightarrow> firstMerchant ps t
           | Some g \<Rightarrow> if g = [] then firstMerchant ps t else Some (trim g)))"

definition createTitle :: "string \<Rightarrow> string \<Rightarrow> string" where
  \<comment> \<open>the group of the business-name pattern spans the whole pattern, so it always took part\<close>
  "createTitle t amountText =
     (let textWithoutAmount = replaceFirst t amountText
      in case firstMerchant merchantPatterns textWithoutAmount of
           Some name \<Rightarrow> name
         | None \<Rightarrow>
             (case search False businessNamePattern 0 textWithoutAmount of
                Some (m, rest) \<Rightarrow> trim (case match_group m of Some g \<Rightarrow> g | None \<Rightarrow> [])
              | None \<Rightarrow> ''Expense''))"

section \<open>The text pipeline\<close>

record ExpenseItem =
  amount :: jsnumber
  title :: string
  head :: string

record ExpenseData =
  total :: jsnumber
  items :: "ExpenseItem list"

datatype error = FailedToProcessEmail | FailedToProcessBill

definition surrounding :: "string \<Rightarrow> AmountMatch \<Rightarrow> string" where
  \<comment> \<open>fifty characters before the match and fifty after it, in lower case; the subtraction
      on \<open>nat\<close> stops at 0 as \<open>Math.max(0, _)\<close> does\<close>
  "surrounding emailText match =
     (let start = m_index match - 50;
          end = min (length emailText) (m_index match + length (m_text match) + 50)
      in toLowerCase (substring emailText start end))"

definition buildItem :: "string \<Rightarrow> AmountMatch \<Rightarrow> ExpenseItem" where
  "buildItem emailText match =
     (let surroundingText = surrounding emailText match
      in \<lparr>amount = m_amount match,
          title = createTitle surroundingText (m_text match),
          head = determineCategory surroundingText\<rparr>)"

definition compareAmounts :: "AmountMatch \<Rightarrow> AmountMatch \<Rightarrow> jsnumber" where
  \<comment> \<open>the function given to \<open>sort\<close>\<close>
  "compareAmounts a b = dsub (m_amount b) (m_amount a)"

fun insertSorted :: "AmountMatch \<Rightarrow> AmountMatch list \<Rightarrow> AmountMatch list" where
  \<comment> \<open>\<open>x\<close> goes behind the elements that the comparison puts first\<close>
  "insertSorted x [] = [x]"
| "insertSorted x (y # ys) =
     (if dlt (Num 0) (compareAmounts x y) then y # insertSorted x ys else x # y # ys)"

definition sortAmounts :: "AmountMatch list \<Rightarrow> AmountMatch list" where
  \<comment> \<open>\<open>sort\<close> is stable, and on the amounts of a scan (positive, possibly infinite) the
      comparison is an ordering, so the result is the one that stable insertion gives\<close>
  "sortAmounts ms = foldr insertSorted ms []"

definition retained :: "AmountMatch list \<Rightarrow> jsnumber \<Rightarrow> AmountMatch list" where
  \<comment> \<open>the matches the loop does not skip\<close>
  "retained amountMatches totalAmount =
     (if length amountMatches > 1
      then filter (\<lambda>match. \<not> (length amountMatches > 2 \<and> deq (m_amount match) totalAmount))
             amountMatches
      else [])"

definition syntheticItem :: "jsnumber \<Rightarrow> ExpenseItem" where
  "syntheticItem totalAmount = \<lparr>amount = totalAmount, title = ''Expense from email'', head = ''unknown''\<rparr>"

definition assemble :: "string \<Rightarrow> AmountMatch list \<Rightarrow> error + ExpenseData" where
  \<comment> \<open>the body of \<open>handleGetEmailExpense\<close> once the amounts are extracted; every error
      is replaced by the one the handler throws\<close>
  "assemble emailText amountMatches =
     (if length amountMatches = 0 then Inl FailedToProcessEmail
      else
        let sortedAmounts = sortAmounts amountMatches;
            totalAmount = m_amount (hd sortedAmounts);
            loopItems = map (buildItem emailText) (retained amountMatches totalAmount);
            items = (if length loopItems = 0 then [syntheticItem totalAmount] else loopItems);
            calculatedTotal = foldl (\<lambda>sum item. dadd sum (amount item)) (Num 0) items;
            finalTotal = (if dlt (dabs (dsub calculatedTotal totalAmount)) hundredth \<or> length items > 1
                          then calculatedTotal else totalAmount)
        in Inr \<lparr>total = finalTotal, items = items\<rparr>)"

definition handleGetEmailExpense :: "string \<Rightarrow> (error + ExpenseData) option" where
  \<comment> \<open>\<open>None\<close>: the scan does not return\<close>
  "handleGetEmailExpense emailText = map_option (assemble emailText) (extractAmounts emailText)"

section \<open>The structured pipeline\<close>

text \<open>
  \<open>handleGetInvoiceData\<close> sends the image to a remote model and hands the answer to
  \<open>extractJSON\<close>. The model below starts from \<open>parsedData\<close>, the value that
  \<open>extractJSON\<close> returned: \<open>null\<close>, the object built from the markdown form, or
  whatever \<open>JSON.parse\<close> produced. Such a value holds data only: no property of it can
  be called.
\<close>

datatype jsval =
    JUndefined
  | JNull
  | JBool bool
  | JNumber jsnumber
  | JString string
  | JArray "jsval list"
  | JObject "(string \<times> jsval) list"

fun truthy :: "jsval \<Rightarrow> bool" where
  "truthy JUndefined = False"
| "truthy JNull = False"
| "truthy (JBool b) = b"
| "truthy (JNumber n) = (case n of Num r \<Rightarrow> r \<noteq> 0 | NaN \<Rightarrow> False | PosInf \<Rightarrow> True | NegInf \<Rightarrow> True)"
| "truthy (JString s) = (s \<noteq> [])"
| "truthy (JArray xs) = True"
| "truthy (JObject kvs) = True"

fun getProp :: "jsval \<Rightarrow> string \<Rightarrow> jsval" where
  \<comment> \<open>reading one of the names \<open>total\<close>, \<open>items\<close>, \<open>amount\<close>, \<open>head\<close>: only an
      object can have it; the keys of an object are distinct\<close>
  "getProp (JObject kvs) k = (case map_of kvs k of Some v \<Rightarrow> v | None \<Rightarrow> JUndefined)"
| "getProp v k = JUndefined"

fun setProp :: "(string \<times> jsval) list \<Rightarrow> string \<Rightarrow> jsval \<Rightarrow> (string \<times> jsval) list" where
  "setProp [] k v = [(k, v)]"
| "setProp ((k', v') # kvs) k v = (if k' = k then (k, v) # kvs else (k', v') # setProp kvs k v)"

definition isHexDigit :: "char \<Rightarrow> bool" where
  "isHexDigit c = (let n = (of_char c :: nat) in
     (48 \<le> n \<and> n \<le> 57) \<or> (65 \<le> n \<and> n \<le> 70) \<or> (97 \<le> n \<and> n \<le> 102))"

definition hexValue :: "char \<Rightarrow> nat" where
  "hexValue c = (let n = (of_char c :: nat) in
     if n \<le> 57 then n - 48 else if n \<le> 70 then n - 55 else n - 87)"

definition radixValue :: "nat \<Rightarrow> string \<Rightarrow> nat" where
  "radixValue b ds = foldl (\<lambda>a c. b * a + hexValue c) 0 ds"

definition radixLiteral :: "nat \<Rightarrow> string \<Rightarrow> jsnumber" where
  \<comment> \<open>the digits after a prefix \<open>0b\<close>, \<open>0o\<close> or \<open>0x\<close>\<close>
  "radixLiteral b ds =
     (if ds \<noteq> [] \<and> list_all (\<lambda>c. isHexDigit c \<and> hexValue c < b) ds
      then roundDouble (of_nat (radixValue b ds)) else NaN)"

definition exponentPart :: "string \<Rightarrow> int option" where
  \<comment> \<open>nothing, or \<open>e\<close> and a signed integer, up to the end of the text\<close>
  "exponentPart s =
     (case s of
        [] \<Rightarrow> Some 0
      | c # cs \<Rightarrow>
          if c = CHR ''e'' \<or> c = CHR ''E''
          then (let neg = (cs \<noteq> [] \<and> hd cs = CHR ''-'');
                    ds = (if cs \<noteq> [] \<and> (hd cs = CHR ''-'' \<or> hd cs = CHR ''+'') then tl cs else cs)
                in if ds \<noteq> [] \<and> list_all isDigit ds
                   then Some (if neg then - int (digitsValue ds) else int (digitsValue ds))
                   else None)
          else None)"

definition unsignedDecimal :: "string \<Rightarrow> jsnumber" where
  "unsignedDecimal s =
     (if s = ''Infinity'' then PosInf
      else
        let ip = takeWhile isDigit s;
            r = dropWhile isDigit s;
            dot = (r \<noteq> [] \<and> hd r = CHR ''.'');
            fp = (if dot then takeWhile isDigit (tl r) else []);
            e = exponentPart (if dot then dropWhile isDigit (tl r) else r)
        in if ip = [] \<and> fp = [] then NaN
           else case e of
                  None \<Rightarrow> NaN
                | Some k \<Rightarrow>
                    roundDouble
                      ((of_nat (digitsValue ip) + of_nat (digitsValue fp) / 10 ^ length fp)
                       * (if 0 \<le> k then 10 ^ nat k else 1 / 10 ^ nat (- k))))"

definition stringToNumber :: "string \<Rightarrow> jsnumber" where
  \<comment> \<open>\<open>Number\<close> of a string: white space around an empty text, a decimal literal with an
      optional sign, or an unsigned binary, octal or hexadecimal literal\<close>
  "stringToNumber s =
     (let t = trim s
      in case t of
           [] \<Rightarrow> Num 0
         | c # cs \<Rightarrow>
             if c = CHR ''-'' then negate (unsignedDecimal cs)
             else if c = CHR ''+'' then unsignedDecimal cs
             else if c = CHR ''0'' \<and> cs \<noteq> [] \<and> (hd cs = CHR ''x'' \<or> hd cs = CHR ''X'') then radixLiteral 16 (tl cs)
             else if c = CHR ''0'' \<and> cs \<noteq> [] \<and> (hd cs = CHR ''o'' \<or> hd cs = CHR ''O'') then radixLiteral 8 (tl cs)
             else if c = CHR ''0'' \<and> cs \<noteq> [] \<and> (hd cs = CHR ''b'' \<or> hd cs = CHR ''B'') then radixLiteral 2 (tl cs)
             else unsignedDecimal t)"

fun throwing :: "jsval \<Rightarrow> bool" where
  \<comment> \<open>the values that cannot be made a primitive. A parsed object inherits \<open>valueOf\<close>,
      which returns the object itself, and \<open>toString\<close>, which returns a text; a property
      of its own named \<open>toString\<close> hides the latter and, being data, cannot be called.
      An array is made a text by joining the texts of its elements.\<close>
  "throwing (JObject kvs) = (''toString'' \<in> fst ` set kvs)"
| "throwing (JArray xs) = list_ex throwing xs"
| "throwing v = False"

fun numericValue :: "jsval \<Rightarrow> jsnumber" where
  \<comment> \<open>the number of a value that can be made a primitive; an array goes through its
      text, which for one element is the text of that element (empty for \<open>null\<close>) and
      otherwise contains a comma\<close>
  "numericValue JUndefined = NaN"
| "numericValue JNull = Num 0"
| "numericValue (JBool b) = Num (if b then 1 else 0)"
| "numericValue (JNumber n) = n"
| "numericValue (JString s) = stringToNumber s"
| "numericValue (JArray []) = Num 0"
| "numericValue (JArray [JUndefined]) = Num 0"
| "numericValue (JArray [JNull]) = Num 0"
| "numericValue (JArray [JBool b]) = NaN"
| "numericValue (JArray [JObject kvs]) = NaN"
| "numericValue (JArray [v]) = numericValue v"
| "numericValue (JArray (v # w # vs)) = NaN"
| "numericValue (JObject kvs) = NaN"

datatype thrown = MissingFields | TypeError

definition toNumber :: "jsval \<Rightarrow> thrown + jsnumber" where
  \<comment> \<open>\<open>Number(v)\<close>\<close>
  "toNumber v = (if throwing v then Inl TypeError else Inr (numericValue v))"

definition validHeads :: "string list" where
  "validHeads = [''food'', ''rent'', ''travel'', ''utility'', ''entertainment'', ''shopping'', ''health'',
                 ''education'', ''gift'', ''fitness'', ''investment'', ''unknown'']"

definition normalizeItem :: "jsval \<Rightarrow> thrown + jsval" where
  \<comment> \<open>the function given to \<open>map\<close>. Reading \<open>amount\<close> of \<open>null\<close>, the coercion of
      the amount, and calling \<open>toLowerCase\<close> on a \<open>head\<close> that is not a string can
      each throw a TypeError.\<close>
  "normalizeItem item =
     (case item of
        JObject kvs \<Rightarrow>
          (case toNumber (getProp item ''amount'') of
             Inl e \<Rightarrow> Inl e
           | Inr n \<Rightarrow>
               (case getProp item ''head'' of
                  JString h \<Rightarrow>
                    Inr (JObject (setProp (setProp kvs ''amount'' (JNumber n)) ''head''
                                    (JString (if toLowerCase h \<in> set validHeads then toLowerCase h
                                              else ''unknown''))))
                | _ \<Rightarrow> Inl TypeError))
      | _ \<Rightarrow> Inl TypeError)"

fun mapItems :: "jsval list \<Rightarrow> thrown + jsval list" where
  "mapItems [] = Inr []"
| "mapItems (x # xs) =
     (case normalizeItem x of
        Inl e \<Rightarrow> Inl e
      | Inr y \<Rightarrow> (case mapItems xs of Inl e \<Rightarrow> Inl e | Inr ys \<Rightarrow> Inr (y # ys)))"

record InvoiceData =
  invoice_total :: jsnumber
  invoice_items :: "jsval list"

fun isArray :: "jsval \<Rightarrow> bool" where
  "isArray (JArray xs) = True"
| "isArray v = False"

fun elements :: "jsval \<Rightarrow> jsval list" where
  "elements (JArray xs) = xs"
| "elements v = []"

definition processInvoice :: "jsval \<Rightarrow> thrown + InvoiceData" where
  \<comment> \<open>the body of the \<open>try\<close> block after \<open>extractJSON\<close>\<close>
  "processInvoice parsedData =
     (if \<not> truthy parsedData \<or> \<not> truthy (getProp parsedData ''total'')
         \<or> \<not> isArray (getProp parsedData ''items'')
         \<or> length (elements (getProp parsedData ''items'')) = 0
      then Inl MissingFields
      else (case toNumber (getProp parsedData ''total'') of
              Inl e \<Rightarrow> Inl e
            | Inr n \<Rightarrow>
                (case mapItems (elements (getProp parsedData ''items'')) of
                   Inl e \<Rightarrow> Inl e
                 | Inr ys \<Rightarrow> Inr \<lparr>invoice_total = n, invoice_items = ys\<rparr>)))"

definition handleGetInvoiceData :: "jsval \<Rightarrow> error + InvoiceData" where
  \<comment> \<open>the \<open>catch\<close> block replaces whatever was thrown\<close>
  "handleGetInvoiceData parsedData =
     (case processInvoice parsedData of Inl e \<Rightarrow> Inl FailedToProcessBill | Inr d \<Rightarrow> Inr d)"

section \<open>The matcher on lists of results\<close>

text \<open>
  The same matcher, with the continuations of sequence, group and repetition as functions
  on the list of results, so that a concrete match is computed by rewriting closed terms only.
\<close>

definition attach :: "string option \<Rightarrow> (string option \<times> string) list \<Rightarrow> (string option \<times> string) list" where
  "attach c1 rs = map (\<lambda>(c2, s2). (later c1 c2, s2)) rs"

definition seq_cont :: "bool \<Rightarrow> regex \<Rightarrow> (string option \<times> string) list \<Rightarrow> (string option \<times> string) list" where
  "seq_cont ic b rs = concat (map (\<lambda>(c1, s1). attach c1 (rmatch ic b s1)) rs)"

definition grp_cont :: "string \<Rightarrow> (string option \<times> string) list \<Rightarrow> (string option \<times> string) list" where
  "grp_cont s rs = map (\<lambda>(c, s'). (Some (take (length s - length s') s), s')) rs"

definition rep_cont ::
  "bool \<Rightarrow> nat \<Rightarrow> nat option \<Rightarrow> regex \<Rightarrow> nat \<Rightarrow> (string option \<times> string) list \<Rightarrow> (string option \<times> string) list" where
  "rep_cont ic mn mx r n rs =
     concat (map (\<lambda>(c1, s1).
               if mn = 0 \<and> n \<le> length s1 then []
               else attach c1 (rmatch ic (Rep (mn - 1) (map_option (\<lambda>n. n - 1) mx) r) s1)) rs)"

section \<open>Notions used in the statements\<close>

definition totalAmountOf :: "AmountMatch list \<Rightarrow> jsnumber" where
  \<comment> \<open>the provisional total: the amount of the first candidate after the descending sort\<close>
  "totalAmountOf ms = m_amount (hd (sortAmounts ms))"

definition sumAmounts :: "ExpenseItem list \<Rightarrow> jsnumber" where
  \<comment> \<open>the amounts added from left to right, as \<open>reduce\<close> does from 0\<close>
  "sumAmounts its = foldl (\<lambda>sum item. dadd sum (amount item)) (Num 0) its"

definition contextWindow :: "string \<Rightarrow> AmountMatch \<Rightarrow> string" where
  \<comment> \<open>the fifty characters before a match and the fifty after it, as they stand in the text\<close>
  "contextWindow emailText match =
     substring emailText (m_index match - 50)
       (min (length emailText) (m_index match + length (m_text match) + 50))"



definition hasStringHead :: "jsval \<Rightarrow> bool" where
  \<comment> \<open>an object whose \<open>head\<close> is a string, as the type of an item declares\<close>
  "hasStringHead item =
     (case item of
        JObject kvs \<Rightarrow> (case getProp item ''head'' of JString h \<Rightarrow> True | _ \<Rightarrow> False)
      | _ \<Rightarrow> False)"

definition acceptable :: "jsval \<Rightarrow> bool" where
  \<comment> \<open>an item that the validation can normalise: its \<open>head\<close> is a string and its
      \<open>amount\<close> can be made a primitive\<close>
  "acceptable item = (hasStringHead item \<and> \<not> throwing (getProp item ''amount''))"

definition clamped :: "string \<Rightarrow> string" where
  \<comment> \<open>a category in lower case, or \<open>unknown\<close> when that is outside the vocabulary\<close>
  "clamped h = (if toLowerCase h \<in> set validHeads then toLowerCase h else ''unknown'')"

definition normalized :: "jsval \<Rightarrow> jsval \<Rightarrow> bool" where
  \<comment> \<open>\<open>y\<close> is \<open>x\<close> with the amount coerced and the category clamped, and nothing else
      changed\<close>
  "normalized x y =
     ((\<exists>kvs. y = JObject kvs) \<and>
      getProp y ''amount'' = JNumber (numericValue (getProp x ''amount'')) \<and>
      (\<exists>h. getProp x ''head'' = JString h \<and> getProp y ''head'' = JString (clamped h)) \<and>
      (\<forall>k. k \<noteq> ''amount'' \<and> k \<noteq> ''head'' \<longrightarrow> getProp y k = getProp x k))"

section \<open>The specification's conditions\<close>

text \<open>
  Three notions in the words of the specification, to compare with what the code does:
  a parsed structure is valid when its total is present and numeric and its items are a
  non-empty list; a total is admissible when it is at least 0 and finite; the classifier
  returns the first category of the table one of whose keywords occurs in the
  case-normalised input, and \<open>unknown\<close> when there is none.
\<close>

definition spec_postValid :: "jsval \<Rightarrow> bool" where
  "spec_postValid v =
     ((case getProp v ''total'' of JNumber (Num r) \<Rightarrow> True | _ \<Rightarrow> False) \<and>
      (case getProp v ''items'' of JArray (x # xs) \<Rightarrow> True | _ \<Rightarrow> False))"

definition spec_totalOk :: "jsnumber \<Rightarrow> bool" where
  "spec_totalOk n = (case n of Num r \<Rightarrow> 0 \<le> r | _ \<Rightarrow> False)"

definition spec_classify :: "string \<Rightarrow> string" where
  "spec_classify s =
     (case find (\<lambda>(category, keywords). \<exists>k \<in> set keywords. includes_str (toLowerCase s) k)
             categoryKeywords of
        Some (category, keywords) \<Rightarrow> category
      | None \<Rightarrow> ''unknown'')"

section \<open>Predicates used in the proofs\<close>

fun consuming :: "regex \<Rightarrow> bool" where
  \<comment> \<open>a pattern every match of which takes at least one character\<close>
  "consuming (Lit p) = True"
| "consuming (Cls rs) = True"
| "consuming Eps = False"
| "consuming (Seq a b) = (consuming a \<or> consuming b)"
| "consuming (Alt a b) = (consuming a \<and> consuming b)"
| "consuming (Grp r) = consuming r"
| "consuming (Rep mn mx r) = (0 < mn \<and> mx \<noteq> Some 0 \<and> consuming r)"

definition isLetter :: "char \<Rightarrow> bool" where
  "isLetter c = (let n = (of_char c :: nat) in (65 \<le> n \<and> n \<le> 90) \<or> (97 \<le> n \<and> n \<le> 122))"

fun lettered :: "regex \<Rightarrow> bool" where
  \<comment> \<open>a pattern every match of which contains a letter\<close>
  "lettered (Lit p) = isLetter p"
| "lettered (Cls rs) = False"
| "lettered Eps = False"
| "lettered (Seq a b) = (lettered a \<or> lettered b)"
| "lettered (Alt a b) = (lettered a \<and> lettered b)"
| "lettered (Grp r) = lettered r"
| "lettered (Rep mn mx r) = (0 < mn \<and> mx \<noteq> Some 0 \<and> lettered r)"

definition onGrid :: "rat \<Rightarrow> bool" where
  \<comment> \<open>a multiple of the least positive value\<close>
  "onGrid r = (\<exists>k :: int. r = of_int k * pow2 (- 1074))"

definition posAmount :: "jsnumber \<Rightarrow> bool" where
  \<comment> \<open>a positive value, possibly infinite\<close>
  "posAmount x = (case x of Num r \<Rightarrow> 0 < r \<and> onGrid r | PosInf \<Rightarrow> True | _ \<Rightarrow> False)"

definition positive :: "AmountMatch list \<Rightarrow> bool" where
  "positive ms = list_all (\<lambda>m. posAmount (m_amount m)) ms"

definition thousands :: "nat \<Rightarrow> string" where
  \<comment> \<open>\<open>n\<close> groups of a comma and three zeros\<close>
  "thousands n = concat (replicate n '',000'')"

declare rmatch.simps [simp del]
declare search.simps [simp del]
declare execAll.simps [simp del]
declare scaleDown.simps [simp del]
declare scaleUp.simps [simp del]

section \<open>Equations for evaluation\<close>

lemma attach_code:
  "attach c1 [] = []"
  "attach c1 ((c2, s2) # rs) = (later c1 c2, s2) # attach c1 rs"
  by (simp_all add: attach_def)

lemma seq_cont_code:
  "seq_cont ic b [] = []"
  "seq_cont ic b ((c1, s1) # rs) = attach c1 (rmatch ic b s1) @ seq_cont ic b rs"
  by (simp_all add: seq_cont_def)

lemma grp_cont_code:
  "grp_cont s [] = []"
  "grp_cont s ((c, s') # rs) = (Some (take (length s - length s') s), s') # grp_cont s rs"
  by (simp_all add: grp_cont_def)

lemma rep_cont_code:
  "rep_cont ic mn mx r n [] = []"
  "rep_cont ic mn mx r n ((c1, s1) # rs) =
     (if mn = 0 \<and> n \<le> length s1 then []
      else attach c1 (rmatch ic (Rep (mn - 1) (map_option (\<lambda>n. n - 1) mx) r) s1))
     @ rep_cont ic mn mx r n rs"
  by (simp_all add: rep_cont_def)

lemma rmatch_Rep_code:
  "rmatch ic (Rep mn mx r) s =
     (if mx = Some 0 then [(None, s)]
      else rep_cont ic mn mx r (length s) (rmatch ic r s) @ (if mn = 0 then [(None, s)] else []))"
  by (subst rmatch.simps) (simp only: rep_cont_def attach_def)

lemma rmatch_code:
  "rmatch ic (Lit p) s =
     (case s of [] \<Rightarrow> [] | c # cs \<Rightarrow> if lit_matches ic p c then [(None, cs)] else [])"
  "rmatch ic (Cls rs) s =
     (case s of [] \<Rightarrow> [] | c # cs \<Rightarrow> if cls_matches ic rs c then [(None, cs)] else [])"
  "rmatch ic Eps s = [(None, s)]"
  "rmatch ic (Seq a b) s = seq_cont ic b (rmatch ic a s)"
  "rmatch ic (Alt a b) s = rmatch ic a s @ rmatch ic b s"
  "rmatch ic (Grp r) s = grp_cont s (rmatch ic r s)"
  "rmatch ic (Rep mn mx r) s =
     (if mx = Some 0 then [(None, s)]
      else rep_cont ic mn mx r (length s) (rmatch ic r s) @ (if mn = 0 then [(None, s)] else []))"
        apply (simp_all only: rmatch.simps(1-6) seq_cont_def grp_cont_def attach_def)
  apply (rule rmatch_Rep_code)
  done

lemma of_char_table:
  "of_char (CHR 0x09) = (9::nat)"
  "of_char (CHR 0x0A) = (10::nat)"
  "of_char (CHR 0x0D) = (13::nat)"
  "of_char (CHR 0x20) = (32::nat)"
  "of_char (CHR 0x21) = (33::nat)"
  "of_char (CHR 0x22) = (34::nat)"
  "of_char (CHR 0x23) = (35::nat)"
  "of_char (CHR 0x24) = (36::nat)"
  "of_char (CHR 0x25) = (37::nat)"
  "of_char (CHR 0x26) = (38::nat)"
  "of_char (CHR 0x27) = (39::nat)"
  "of_char (CHR 0x28) = (40::nat)"
  "of_char (CHR 0x29) = (41::nat)"
  "of_char (CHR 0x2A) = (42::nat)"
  "of_char (CHR 0x2B) = (43::nat)"
  "of_char (CHR 0x2C) = (44::nat)"
  "of_char (CHR 0x2D) = (45::nat)"
  "of_char (CHR 0x2E) = (46::nat)"
  "of_char (CHR 0x2F) = (47::nat)"
  "of_char (CHR 0x30) = (48::nat)"
  "of_char (CHR 0x31) = (49::nat)"
  "of_char (CHR 0x32) = (50::nat)"
  "of_char (CHR 0x33) = (51::nat)"
  "of_char (CHR 0x34) = (52::nat)"
  "of_char (CHR 0x35) = (53::nat)"
  "of_char (CHR 0x36) = (54::nat)"
  "of_char (CHR 0x37) = (55::nat)"
  "of_char (CHR 0x38) = (56::nat)"
  "of_char (CHR 0x39) = (57::nat)"
  "of_char (CHR 0x3A) = (58::nat)"
  "of_char (CHR 0x3B) = (59::nat)"
  "of_char (CHR 0x3C) = (60::nat)"
  "of_char (CHR 0x3D) = (61::nat)"
  "of_char (CHR 0x3E) = (62::nat)"
  "of_char (CHR 0x3F) = (63::nat)"
  "of_char (CHR 0x40) = (64::nat)"
  "of_char (CHR 0x41) = (65::nat)"
  "of_char (CHR 0x42) = (66::nat)"
  "of_char (CHR 0x43) = (67::nat)"
  "of_char (CHR 0x44) = (68::nat)"
  "of_char (CHR 0x45) = (69::nat)"
  "of_char (CHR 0x46) = (70::nat)"
  "of_char (CHR 0x47) = (71::nat)"
  "of_char (CHR 0x48) = (72::nat)"
  "of_char (CHR 0x49) = (73::nat)"
  "of_char (CHR 0x4A) = (74::nat)"
  "of_char (CHR 0x4B) = (75::nat)"
  "of_char (CHR 0x4C) = (76::nat)"
  "of_char (CHR 0x4D) = (77::nat)"
  "of_char (CHR 0x4E) = (78::nat)"
  "of_char (CHR 0x4F) = (79::nat)"
  "of_char (CHR 0x50) = (80::nat)"
  "of_char (CHR 0x51) = (81::nat)"
  "of_char (CHR 0x52) = (82::nat)"
  "of_char (CHR 0x53) = (83::nat)"
  "of_char (CHR 0x54) = (84::nat)"
  "of_char (CHR 0x55) = (85::nat)"
  "of_char (CHR 0x56) = (86::nat)"
  "of_char (CHR 0x57) = (87::nat)"
  "of_char (CHR 0x58) = (88::nat)"
  "of_char (CHR 0x59) = (89::nat)"
  "of_char (CHR 0x5A) = (90::nat)"
  "of_char (CHR 0x5B) = (91::nat)"
  "of_char (CHR 0x5C) = (92::nat)"
  "of_char (CHR 0x5D) = (93::nat)"
  "of_char (CHR 0x5E) = (94::nat)"
  "of_char (CHR 0x5F) = (95::nat)"
  "of_char (CHR 0x60) = (96::nat)"
  "of_char (CHR 0x61) = (97::nat)"
  "of_char (CHR 0x62) = (98::nat)"
  "of_char (CHR 0x63) = (99::nat)"
  "of_char (CHR 0x64) = (100::nat)"
  "of_char (CHR 0x65) = (101::nat)"
  "of_char (CHR 0x66) = (102::nat)"
  "of_char (CHR 0x67) = (103::nat)"
  "of_char (CHR 0x68) = (104::nat)"
  "of_char (CHR 0x69) = (105::nat)"
  "of_char (CHR 0x6A) = (106::nat)"
  "of_char (CHR 0x6B) = (107::nat)"
  "of_char (CHR 0x6C) = (108::nat)"
  "of_char (CHR 0x6D) = (109::nat)"
  "of_char (CHR 0x6E) = (110::nat)"
  "of_char (CHR 0x6F) = (111::nat)"
  "of_char (CHR 0x70) = (112::nat)"
  "of_char (CHR 0x71) = (113::nat)"
  "of_char (CHR 0x72) = (114::nat)"
  "of_char (CHR 0x73) = (115::nat)"
  "of_char (CHR 0x74) = (116::nat)"
  "of_char (CHR 0x75) = (117::nat)"
  "of_char (CHR 0x76) = (118::nat)"
  "of_char (CHR 0x77) = (119::nat)"
  "of_char (CHR 0x78) = (120::nat)"
  "of_char (CHR 0x79) = (121::nat)"
  "of_char (CHR 0x7A) = (122::nat)"
  "of_char (CHR 0x7B) = (123::nat)"
  "of_char (CHR 0x7C) = (124::nat)"
  "of_char (CHR 0x7D) = (125::nat)"
  "of_char (CHR 0x7E) = (126::nat)"
  by simp_all

lemma canonicalize_table:
  "canonicalize (CHR 0x09) = CHR 0x09"
  "canonicalize (CHR 0x0A) = CHR 0x0A"
  "canonicalize (CHR 0x0D) = CHR 0x0D"
  "canonicalize (CHR 0x20) = CHR 0x20"
  "canonicalize (CHR 0x21) = CHR 0x21"
  "canonicalize (CHR 0x22) = CHR 0x22"
  "canonicalize (CHR 0x23) = CHR 0x23"
  "canonicalize (CHR 0x24) = CHR 0x24"
  "canonicalize (CHR 0x25) = CHR 0x25"
  "canonicalize (CHR 0x26) = CHR 0x26"
  "canonicalize (CHR 0x27) = CHR 0x27"
  "canonicalize (CHR 0x28) = CHR 0x28"
  "canonicalize (CHR 0x29) = CHR 0x29"
  "canonicalize (CHR 0x2A) = CHR 0x2A"
  "canonicalize (CHR 0x2B) = CHR 0x2B"
  "canonicalize (CHR 0x2C) = CHR 0x2C"
  "canonicalize (CHR 0x2D) = CHR 0x2D"
  "canonicalize (CHR 0x2E) = CHR 0x2E"
  "canonicalize (CHR 0x2F) = CHR 0x2F"
  "canonicalize (CHR 0x30) = CHR 0x30"
  "canonicalize (CHR 0x31) = CHR 0x31"
  "canonicalize (CHR 0x32) = CHR 0x32"
  "canonicalize (CHR 0x33) = CHR 0x33"
  "canonicalize (CHR 0x34) = CHR 0x34"
  "canonicalize (CHR 0x35) = CHR 0x35"
  "canonicalize (CHR 0x36) = CHR 0x36"
  "canonicalize (CHR 0x37) = CHR 0x37"
  "canonicalize (CHR 0x38) = CHR 0x38"
  "canonicalize (CHR 0x39) = CHR 0x39"
  "canonicalize (CHR 0x3A) = CHR 0x3A"
  "canonicalize (CHR 0x3B) = CHR 0x3B"
  "canonicalize (CHR 0x3C) = CHR 0x3C"
  "canonicalize (CHR 0x3D) = CHR 0x3D"
  "canonicalize (CHR 0x3E) = CHR 0x3E"
  "canonicalize (CHR 0x3F) = CHR 0x3F"
  "canonicalize (CHR 0x40) = CHR 0x40"
  "canonicalize (CHR 0x41) = CHR 0x41"
  "canonicalize (CHR 0x42) = CHR 0x42"
  "canonicalize (CHR 0x43) = CHR 0x43"
  "canonicalize (CHR 0x44) = CHR 0x44"
  "canonicalize (CHR 0x45) = CHR 0x45"
  "canonicalize (CHR 0x46) = CHR 0x46"
  "canonicalize (CHR 0x47) = CHR 0x47"
  "canonicalize (CHR 0x48) = CHR 0x48"
  "canonicalize (CHR 0x49) = CHR 0x49"
  "canonicalize (CHR 0x4A) = CHR 0x4A"
  "canonicalize (CHR 0x4B) = CHR 0x4B"
  "canonicalize (CHR 0x4C) = CHR 0x4C"
  "canonicalize (CHR 0x4D) = CHR 0x4D"
  "canonicalize (CHR 0x4E) = CHR 0x4E"
  "canonicalize (CHR 0x4F) = CHR 0x4F"
  "canonicalize (CHR 0x50) = CHR 0x50"
  "canonicalize (CHR 0x51) = CHR 0x51"
  "canonicalize (CHR 0x52) = CHR 0x52"
  "canonicalize (CHR 0x53) = CHR 0x53"
  "canonicalize (CHR 0x54) = CHR 0x54"
  "canonicalize (CHR 0x55) = CHR 0x55"
  "canonicalize (CHR 0x56) = CHR 0x56"
  "canonicalize (CHR 0x57) = CHR 0x57"
  "canonicalize (CHR 0x58) = CHR 0x58"
  "canonicalize (CHR 0x59) = CHR 0x59"
  "canonicalize (CHR 0x5A) = CHR 0x5A"
  "canonicalize (CHR 0x5B) = CHR 0x5B"
  "canonicalize (CHR 0x5C) = CHR 0x5C"
  "canonicalize (CHR 0x5D) = CHR 0x5D"
  "canonicalize (CHR 0x5E) = CHR 0x5E"
  "canonicalize (CHR 0x5F) = CHR 0x5F"
  "canonicalize (CHR 0x60) = CHR 0x60"
  "canonicalize (CHR 0x61) = CHR 0x41"
  "canonicalize (CHR 0x62) = CHR 0x42"
  "canonicalize (CHR 0x63) = CHR 0x43"
  "canonicalize (CHR 0x64) = CHR 0x44"
  "canonicalize (CHR 0x65) = CHR 0x45"
  "canonicalize (CHR 0x66) = CHR 0x46"
  "canonicalize (CHR 0x67) = CHR 0x47"
  "canonicalize (CHR 0x68) = CHR 0x48"
  "canonicalize (CHR 0x69) = CHR 0x49"
  "canonicalize (CHR 0x6A) = CHR 0x4A"
  "canonicalize (CHR 0x6B) = CHR 0x4B"
  "canonicalize (CHR 0x6C) = CHR 0x4C"
  "canonicalize (CHR 0x6D) = CHR 0x4D"
  "canonicalize (CHR 0x6E) = CHR 0x4E"
  "canonicalize (CHR 0x6F) = CHR 0x4F"
  "canonicalize (CHR 0x70) = CHR 0x50"
  "canonicalize (CHR 0x71) = CHR 0x51"
  "canonicalize (CHR 0x72) = CHR 0x52"
  "canonicalize (CHR 0x73) = CHR 0x53"
  "canonicalize (CHR 0x74) = CHR 0x54"
  "canonicalize (CHR 0x75) = CHR 0x55"
  "canonicalize (CHR 0x76) = CHR 0x56"
  "canonicalize (CHR 0x77) = CHR 0x57"
  "canonicalize (CHR 0x78) = CHR 0x58"
  "canonicalize (CHR 0x79) = CHR 0x59"
  "canonicalize (CHR 0x7A) = CHR 0x5A"
  "canonicalize (CHR 0x7B) = CHR 0x7B"
  "canonicalize (CHR 0x7C) = CHR 0x7C"
  "canonicalize (CHR 0x7D) = CHR 0x7D"
  "canonicalize (CHR 0x7E) = CHR 0x7E"
  by (simp_all add: canonicalize_def char_of_def bit_Suc_0_iff)

lemma lowerChar_table:
  "lowerChar (CHR 0x09) = CHR 0x09"
  "lowerChar (CHR 0x0A) = CHR 0x0A"
  "lowerChar (CHR 0x0D) = CHR 0x0D"
  "lowerChar (CHR 0x20) = CHR 0x20"
  "lowerChar (CHR 0x21) = CHR 0x21"
  "lowerChar (CHR 0x22) = CHR 0x22"
  "lowerChar (CHR 0x23) = CHR 0x23"
  "lowerChar (CHR 0x24) = CHR 0x24"
  "lowerChar (CHR 0x25) = CHR 0x25"
  "lowerChar (CHR 0x26) = CHR 0x26"
  "lowerChar (CHR 0x27) = CHR 0x27"
  "lowerChar (CHR 0x28) = CHR 0x28"
  "lowerChar (CHR 0x29) = CHR 0x29"
  "lowerChar (CHR 0x2A) = CHR 0x2A"
  "lowerChar (CHR 0x2B) = CHR 0x2B"
  "lowerChar (CHR 0x2C) = CHR 0x2C"
  "lowerChar (CHR 0x2D) = CHR 0x2D"
  "lowerChar (CHR 0x2E) = CHR 0x2E"
  "lowerChar (CHR 0x2F) = CHR 0x2F"
  "lowerChar (CHR 0x30) = CHR 0x30"
  "lowerChar (CHR 0x31) = CHR 0x31"
  "lowerChar (CHR 0x32) = CHR 0x32"
  "lowerChar (CHR 0x33) = CHR 0x33"
  "lowerChar (CHR 0x34) = CHR 0x34"
  "lowerChar (CHR 0x35) = CHR 0x35"
  "lowerChar (CHR 0x36) = CHR 0x36"
  "lowerChar (CHR 0x37) = CHR 0x37"
  "lowerChar (CHR 0x38) = CHR 0x38"
  "lowerChar (CHR 0x39) = CHR 0x39"
  "lowerChar (CHR 0x3A) = CHR 0x3A"
  "lowerChar (CHR 0x3B) = CHR 0x3B"
  "lowerChar (CHR 0x3C) = CHR 0x3C"
  "lowerChar (CHR 0x3D) = CHR 0x3D"
  "lowerChar (CHR 0x3E) = CHR 0x3E"
  "lowerChar (CHR 0x3F) = CHR 0x3F"
  "lowerChar (CHR 0x40) = CHR 0x40"
  "lowerChar (CHR 0x41) = CHR 0x61"
  "lowerChar (CHR 0x42) = CHR 0x62"
  "lowerChar (CHR 0x43) = CHR 0x63"
  "lowerChar (CHR 0x44) = CHR 0x64"
  "lowerChar (CHR 0x45) = CHR 0x65"
  "lowerChar (CHR 0x46) = CHR 0x66"
  "lowerChar (CHR 0x47) = CHR 0x67"
  "lowerChar (CHR 0x48) = CHR 0x68"
  "lowerChar (CHR 0x49) = CHR 0x69"
  "lowerChar (CHR 0x4A) = CHR 0x6A"
  "lowerChar (CHR 0x4B) = CHR 0x6B"
  "lowerChar (CHR 0x4C) = CHR 0x6C"
  "lowerChar (CHR 0x4D) = CHR 0x6D"
  "lowerChar (CHR 0x4E) = CHR 0x6E"
  "lowerChar (CHR 0x4F) = CHR 0x6F"
  "lowerChar (CHR 0x50) = CHR 0x70"
  "lowerChar (CHR 0x51) = CHR 0x71"
  "lowerChar (CHR 0x52) = CHR 0x72"
  "lowerChar (CHR 0x53) = CHR 0x73"
  "lowerChar (CHR 0x54) = CHR 0x74"
  "lowerChar (CHR 0x55) = CHR 0x75"
  "lowerChar (CHR 0x56) = CHR 0x76"
  "lowerChar (CHR 0x57) = CHR 0x77"
  "lowerChar (CHR 0x58) = CHR 0x78"
  "lowerChar (CHR 0x59) = CHR 0x79"
  "lowerChar (CHR 0x5A) = CHR 0x7A"
  "lowerChar (CHR 0x5B) = CHR 0x5B"
  "lowerChar (CHR 0x5C) = CHR 0x5C"
  "lowerChar (CHR 0x5D) = CHR 0x5D"
  "lowerChar (CHR 0x5E) = CHR 0x5E"
  "lowerChar (CHR 0x5F) = CHR 0x5F"
  "lowerChar (CHR 0x60) = CHR 0x60"
  "lowerChar (CHR 0x61) = CHR 0x61"
  "lowerChar (CHR 0x62) = CHR 0x62"
  "lowerChar (CHR 0x63) = CHR 0x63"
  "lowerChar (CHR 0x64) = CHR 0x64"
  "lowerChar (CHR 0x65) = CHR 0x65"
  "lowerChar (CHR 0x66) = CHR 0x66"
  "lowerChar (CHR 0x67) = CHR 0x67"
  "lowerChar (CHR 0x68) = CHR 0x68"
  "lowerChar (CHR 0x69) = CHR 0x69"
  "lowerChar (CHR 0x6A) = CHR 0x6A"
  "lowerChar (CHR 0x6B) = CHR 0x6B"
  "lowerChar (CHR 0x6C) = CHR 0x6C"
  "lowerChar (CHR 0x6D) = CHR 0x6D"
  "lowerChar (CHR 0x6E) = CHR 0x6E"
  "lowerChar (CHR 0x6F) = CHR 0x6F"
  "lowerChar (CHR 0x70) = CHR 0x70"
  "lowerChar (CHR 0x71) = CHR 0x71"
  "lowerChar (CHR 0x72) = CHR 0x72"
  "lowerChar (CHR 0x73) = CHR 0x73"
  "lowerChar (CHR 0x74) = CHR 0x74"
  "lowerChar (CHR 0x75) = CHR 0x75"
  "lowerChar (CHR 0x76) = CHR 0x76"
  "lowerChar (CHR 0x77) = CHR 0x77"
  "lowerChar (CHR 0x78) = CHR 0x78"
  "lowerChar (CHR 0x79) = CHR 0x79"
  "lowerChar (CHR 0x7A) = CHR 0x7A"
  "lowerChar (CHR 0x7B) = CHR 0x7B"
  "lowerChar (CHR 0x7C) = CHR 0x7C"
  "lowerChar (CHR 0x7D) = CHR 0x7D"
  "lowerChar (CHR 0x7E) = CHR 0x7E"
  by (simp_all add: lowerChar_def char_of_def bit_Suc_0_iff)
section \<open>Rounding\<close>

text \<open>
  The two scaling loops keep the value and end on a significand below \<open>2 ^ 53\<close> that is
  normal or has the least exponent. From that: a rounded value is a multiple of the least
  positive value, rounding keeps the sign of what is at least that value in magnitude, the
  integers below \<open>2 ^ 53\<close> are not changed, and \<open>2 ^ 1024\<close> and more is infinity.
\<close>

lemma pow2_powi: "pow2 p = 2 powi p"
  by (simp add: pow2_def power_int_def inverse_eq_divide power_one_over)

lemma pow2_pos [simp]: "0 < pow2 p"
  by (simp add: pow2_powi)

lemma pow2_0 [simp]: "pow2 0 = 1"
  by (simp add: pow2_def)

lemma pow2_add: "pow2 (p + q) = pow2 p * pow2 q"
  by (simp add: pow2_powi power_int_add)

lemma pow2_1 [simp]: "pow2 1 = 2"
  by (simp add: pow2_def)

lemma pow2_Suc: "pow2 (e + 1) = 2 * pow2 e"
  by (simp only: pow2_add pow2_1 mult.commute)

lemma pow2_pred: "2 * pow2 (e - 1) = pow2 e"
  using pow2_Suc[of "e - 1"] by simp

lemma pow2_nat: "0 \<le> p \<Longrightarrow> pow2 p = 2 ^ nat p"
  by (simp add: pow2_def)

lemma pow2_mono: "p \<le> q \<Longrightarrow> pow2 p \<le> pow2 q"
  by (simp add: pow2_powi power_int_increasing)

lemma scaleDown_props:
  "scaleDown a e = (a', e') \<Longrightarrow> 0 < a \<Longrightarrow>
     e \<le> e' \<and> a' * pow2 e' = a * pow2 e \<and> 0 < a' \<and> a' < 9007199254740992"
proof (induction a e rule: scaleDown.induct)
  case (1 a e)
  show ?case
  proof (cases "9007199254740992 \<le> a")
    case True
    with "1.prems" have r: "scaleDown (a / 2) (e + 1) = (a', e')"
      by (subst (asm) scaleDown.simps) simp
    from "1.IH"[OF True r] "1.prems"(2)
    have "e + 1 \<le> e' \<and> a' * pow2 e' = a / 2 * pow2 (e + 1) \<and> 0 < a' \<and> a' < 9007199254740992"
      by simp
    then show ?thesis by (simp add: pow2_Suc)
  next
    case False
    with "1.prems" have "a' = a" "e' = e" by (subst (asm) scaleDown.simps; simp)+
    with False "1.prems"(2) show ?thesis by simp
  qed
qed

lemma scaleUp_props:
  "scaleUp a e = (m, p) \<Longrightarrow> - 1074 \<le> e \<Longrightarrow> 0 < a \<Longrightarrow> a < 9007199254740992 \<Longrightarrow>
     - 1074 \<le> p \<and> p \<le> e \<and> m * pow2 p = a * pow2 e \<and> 0 < m \<and> m < 9007199254740992 \<and>
     (4503599627370496 \<le> m \<or> p = - 1074) \<and> (a \<in> \<int> \<longrightarrow> m \<in> \<int>)"
proof (induction a e rule: scaleUp.induct)
  case (1 a e)
  show ?case
  proof (cases "a < 4503599627370496 \<and> - 1074 < e")
    case True
    with "1.prems"(1) have r: "scaleUp (2 * a) (e - 1) = (m, p)"
      by (subst (asm) scaleUp.simps) simp
    have "- 1074 \<le> e - 1" "0 < 2 * a" "2 * a < 9007199254740992"
      using True "1.prems" by simp_all
    from "1.IH"[OF True r this]
    have ih: "- 1074 \<le> p \<and> p \<le> e - 1 \<and> m * pow2 p = 2 * a * pow2 (e - 1) \<and> 0 < m \<and>
        m < 9007199254740992 \<and> (4503599627370496 \<le> m \<or> p = - 1074) \<and> (2 * a \<in> \<int> \<longrightarrow> m \<in> \<int>)" .
    have "2 * a * pow2 (e - 1) = a * pow2 e" using pow2_pred[of e] by (simp add: mult.assoc mult.left_commute)
    moreover have "a \<in> \<int> \<Longrightarrow> 2 * a \<in> \<int>" by simp
    ultimately show ?thesis using ih by auto
  next
    case False
    with "1.prems"(1) have "m = a" "p = e" by (subst (asm) scaleUp.simps; simp)+
    with False "1.prems" show ?thesis by auto
  qed
qed

lemma roundDouble_shape:
  assumes "q \<noteq> 0"
  obtains m p where "0 < m" "m < 9007199254740992" "- 1074 \<le> p"
    "4503599627370496 \<le> m \<or> p = - 1074" "\<bar>q\<bar> = m * pow2 p"
    "\<bar>q\<bar> \<in> \<int> \<and> \<bar>q\<bar> < 9007199254740992 \<longrightarrow> m \<in> \<int>"
    "roundDouble q =
       (if 2 ^ 1024 \<le> of_int (roundHalfEven m) * pow2 p then (if 0 < q then PosInf else NegInf)
        else Num (if 0 < q then of_int (roundHalfEven m) * pow2 p
                  else - (of_int (roundHalfEven m) * pow2 p)))"
proof -
  obtain a e where d: "scaleDown \<bar>q\<bar> 0 = (a, e)" by (cases "scaleDown \<bar>q\<bar> 0")
  obtain m p where u: "scaleUp a e = (m, p)" by (cases "scaleUp a e")
  have qpos: "0 < \<bar>q\<bar>" using assms by simp
  from scaleDown_props[OF d qpos]
  have dp: "0 \<le> e" "a * pow2 e = \<bar>q\<bar>" "0 < a" "a < 9007199254740992" by simp_all
  have e1074: "- 1074 \<le> e" using dp(1) by simp
  from scaleUp_props[OF u e1074 dp(3) dp(4)]
  have up: "- 1074 \<le> p" "m * pow2 p = a * pow2 e" "0 < m" "m < 9007199254740992"
    "4503599627370496 \<le> m \<or> p = - 1074" "a \<in> \<int> \<longrightarrow> m \<in> \<int>" by simp_all
  have small: "a = \<bar>q\<bar>" if "\<bar>q\<bar> < 9007199254740992"
    using that d by (subst (asm) scaleDown.simps) simp
  have r: "roundDouble q =
       (if 2 ^ 1024 \<le> of_int (roundHalfEven m) * pow2 p then (if 0 < q then PosInf else NegInf)
        else Num (if 0 < q then of_int (roundHalfEven m) * pow2 p
                  else - (of_int (roundHalfEven m) * pow2 p)))"
    using assms by (simp add: roundDouble_def d u Let_def)
  show ?thesis
    by (rule that[of m p]) (use up dp small r in auto)
qed

lemma roundHalfEven_int: "m \<in> \<int> \<Longrightarrow> of_int (roundHalfEven m) = m"
  by (auto simp: roundHalfEven_def Let_def elim!: Ints_cases)

lemma roundHalfEven_ge: "\<lfloor>m\<rfloor> \<le> roundHalfEven m"
  by (simp add: roundHalfEven_def Let_def)

lemma roundHalfEven_pos: "1 \<le> m \<Longrightarrow> 1 \<le> roundHalfEven m"
proof -
  assume "1 \<le> m"
  then have "1 \<le> \<lfloor>m\<rfloor>" by simp
  with roundHalfEven_ge[of m] show ?thesis by linarith
qed

lemma onGrid_scaled: "- 1074 \<le> p \<Longrightarrow> onGrid (of_int n * pow2 p)"
proof -
  assume p: "- 1074 \<le> p"
  have "pow2 p = pow2 (p + 1074) * pow2 (- 1074)" using pow2_add[of "p + 1074" "- 1074"] by simp
  also have "pow2 (p + 1074) = of_int (2 ^ nat (p + 1074))" using p by (simp add: pow2_nat)
  finally have "of_int n * pow2 p = of_int (n * 2 ^ nat (p + 1074)) * pow2 (- 1074)" by simp
  then show ?thesis unfolding onGrid_def by blast
qed

lemma onGrid_minus: "onGrid r \<Longrightarrow> onGrid (- r)"
proof -
  assume "onGrid r"
  then obtain k :: int where "r = of_int k * pow2 (- 1074)" by (auto simp: onGrid_def)
  then have "- r = of_int (- k) * pow2 (- 1074)" by simp
  then show ?thesis unfolding onGrid_def by blast
qed

lemma onGrid_0: "onGrid 0"
  unfolding onGrid_def by (rule exI[of _ 0]) simp

lemma roundDouble_grid: "roundDouble q = Num r \<Longrightarrow> onGrid r"
proof (cases "q = 0")
  case True
  assume "roundDouble q = Num r"
  with True show ?thesis by (simp add: roundDouble_def onGrid_0)
next
  case False
  assume r: "roundDouble q = Num r"
  from False obtain m p where p: "- 1074 \<le> p" and
    rd: "roundDouble q =
       (if 2 ^ 1024 \<le> of_int (roundHalfEven m) * pow2 p then (if 0 < q then PosInf else NegInf)
        else Num (if 0 < q then of_int (roundHalfEven m) * pow2 p
                  else - (of_int (roundHalfEven m) * pow2 p)))"
    by (rule roundDouble_shape)
  from r rd have "r = of_int (roundHalfEven m) * pow2 p \<or> r = - (of_int (roundHalfEven m) * pow2 p)"
    by (auto split: if_splits)
  with onGrid_scaled[OF p, of "roundHalfEven m"] onGrid_minus show ?thesis by auto
qed

lemma roundDouble_pos: "pow2 (- 1074) \<le> q \<Longrightarrow> posAmount (roundDouble q)"
proof -
  assume q: "pow2 (- 1074) \<le> q"
  have qpos: "0 < q" using q pow2_pos[of "- 1074"] by linarith
  then have "q \<noteq> 0" by simp
  then obtain m p where m: "0 < m" and p: "- 1074 \<le> p"
    and norm: "4503599627370496 \<le> m \<or> p = - 1074" and eq: "\<bar>q\<bar> = m * pow2 p"
    and rd: "roundDouble q =
       (if 2 ^ 1024 \<le> of_int (roundHalfEven m) * pow2 p then (if 0 < q then PosInf else NegInf)
        else Num (if 0 < q then of_int (roundHalfEven m) * pow2 p
                  else - (of_int (roundHalfEven m) * pow2 p)))"
    by (rule roundDouble_shape)
  have "1 \<le> m"
  proof (cases "4503599627370496 \<le> m")
    case True
    then show ?thesis by simp
  next
    case False
    with norm have "p = - 1074" by simp
    with eq qpos have "q = m * pow2 (- 1074)" by simp
    with q have "1 * pow2 (- 1074) \<le> m * pow2 (- 1074)" by simp
    then show ?thesis using pow2_pos[of "- 1074"] by (simp only: mult_le_cancel_right_pos)
  qed
  then have "1 \<le> roundHalfEven m" by (rule roundHalfEven_pos)
  then have "(0::rat) < of_int (roundHalfEven m)" by simp
  then have v: "0 < of_int (roundHalfEven m) * pow2 p" by simp
  show ?thesis
    using rd qpos v onGrid_scaled[OF p, of "roundHalfEven m"] by (simp add: posAmount_def)
qed

lemma roundDouble_minus: "roundDouble (- q) = negate (roundDouble q)"
  by (cases "scaleDown \<bar>q\<bar> 0"; cases "scaleUp (fst (scaleDown \<bar>q\<bar> 0)) (snd (scaleDown \<bar>q\<bar> 0))")
     (auto simp: roundDouble_def negate_def Let_def)

lemma roundDouble_int:
  assumes "\<bar>k\<bar> < 9007199254740992"
  shows "roundDouble (of_int k) = Num (of_int k)"
proof (cases "k = 0")
  case True
  then show ?thesis by (simp add: roundDouble_def)
next
  case False
  let ?q = "of_int k :: rat"
  have q0: "?q \<noteq> 0" using False by simp
  have ai: "\<bar>?q\<bar> \<in> \<int>" by (metis Ints_of_int of_int_abs)
  have ab: "\<bar>?q\<bar> < 9007199254740992"
  proof -
    have "\<bar>?q\<bar> = of_int \<bar>k\<bar>" by simp
    also have "\<dots> < of_int 9007199254740992" using assms by (simp only: of_int_less_iff)
    finally show ?thesis by simp
  qed
  from q0 obtain m p where eq: "\<bar>?q\<bar> = m * pow2 p"
    and mi: "\<bar>?q\<bar> \<in> \<int> \<and> \<bar>?q\<bar> < 9007199254740992 \<longrightarrow> m \<in> \<int>"
    and rd: "roundDouble ?q =
       (if 2 ^ 1024 \<le> of_int (roundHalfEven m) * pow2 p then (if 0 < ?q then PosInf else NegInf)
        else Num (if 0 < ?q then of_int (roundHalfEven m) * pow2 p
                  else - (of_int (roundHalfEven m) * pow2 p)))"
    by (rule roundDouble_shape)
  have "m \<in> \<int>" using mi ai ab by blast
  then have v: "of_int (roundHalfEven m) * pow2 p = \<bar>?q\<bar>" by (simp add: roundHalfEven_int eq)
  have "\<bar>?q\<bar> < 2 ^ 1024" using ab by simp
  with rd v show ?thesis by (auto simp: not_le)
qed

lemma roundDouble_numeral [simp]:
  "(numeral n :: int) < 9007199254740992 \<Longrightarrow> roundDouble (numeral n) = Num (numeral n)"
  using roundDouble_int[of "numeral n"] by simp

lemma roundDouble_neg_numeral [simp]:
  "(numeral n :: int) < 9007199254740992 \<Longrightarrow> roundDouble (- numeral n) = Num (- numeral n)"
  using roundDouble_int[of "- numeral n"] by simp

lemma roundDouble_0 [simp]: "roundDouble 0 = Num 0"
  by (simp add: roundDouble_def)

lemma roundDouble_1 [simp]: "roundDouble 1 = Num 1"
  using roundDouble_int[of 1] by simp

lemma roundDouble_overflow: "2 ^ 1024 \<le> q \<Longrightarrow> roundDouble q = PosInf"
proof -
  assume q: "2 ^ 1024 \<le> q"
  then have qpos: "0 < q" by (simp add: less_le_trans[of 0 "2 ^ 1024"])
  then have "q \<noteq> 0" by simp
  then obtain m p where mb: "m < 9007199254740992" and p: "- 1074 \<le> p"
    and norm: "4503599627370496 \<le> m \<or> p = - 1074" and eq: "\<bar>q\<bar> = m * pow2 p"
    and rd: "roundDouble q =
       (if 2 ^ 1024 \<le> of_int (roundHalfEven m) * pow2 p then (if 0 < q then PosInf else NegInf)
        else Num (if 0 < q then of_int (roundHalfEven m) * pow2 p
                  else - (of_int (roundHalfEven m) * pow2 p)))"
    by (rule roundDouble_shape)
  have eq': "q = m * pow2 p" using eq qpos by simp
  have big: "972 \<le> p"
  proof (rule ccontr)
    assume "\<not> 972 \<le> p"
    then have "p \<le> 971" by simp
    then have le: "pow2 p \<le> pow2 971" by (rule pow2_mono)
    have "m * pow2 p < 9007199254740992 * pow2 p"
      using mb pow2_pos[of p] by (rule mult_strict_right_mono)
    also have "\<dots> \<le> 9007199254740992 * pow2 971"
      using le by (rule mult_left_mono) simp
    also have "9007199254740992 * pow2 971 = (2 ^ 1024 :: rat)" by (simp add: pow2_def)
    finally show False using q eq' by simp
  qed
  then have "p \<noteq> - 1074" by simp
  with norm have "4503599627370496 \<le> m" by simp
  then have "(4503599627370496 :: int) \<le> \<lfloor>m\<rfloor>" by (simp add: le_floor_iff)
  with roundHalfEven_ge[of m] have "(4503599627370496 :: int) \<le> roundHalfEven m" by linarith
  then have "(4503599627370496 :: rat) \<le> of_int (roundHalfEven m)"
    by (metis of_int_le_iff of_int_numeral)
  moreover have "pow2 972 \<le> pow2 p" using big by (rule pow2_mono)
  ultimately have "4503599627370496 * pow2 972 \<le> of_int (roundHalfEven m) * pow2 p"
    by (intro mult_mono) (simp_all add: less_imp_le)
  moreover have "4503599627370496 * pow2 972 = (2 ^ 1024 :: rat)" by (simp add: pow2_def)
  ultimately show ?thesis using rd qpos by simp
qed

lemma onGrid_gap:
  assumes "onGrid a" and "onGrid b" and "a < b"
  shows "pow2 (- 1074) \<le> b - a"
proof -
  from assms(1) obtain i :: int where a: "a = of_int i * pow2 (- 1074)" by (auto simp: onGrid_def)
  from assms(2) obtain j :: int where b: "b = of_int j * pow2 (- 1074)" by (auto simp: onGrid_def)
  from assms(3) a b have "of_int i * pow2 (- 1074) < of_int j * pow2 (- 1074)" by simp
  then have "(of_int i :: rat) < of_int j" using pow2_pos[of "- 1074"]
    by (simp only: mult_less_cancel_right_pos)
  then have "i < j" by simp
  then have "1 \<le> j - i" by simp
  then have "(1 :: rat) \<le> of_int (j - i)" by (simp only: of_int_1_le_iff)
  then have "1 * pow2 (- 1074) \<le> of_int (j - i) * pow2 (- 1074)"
    using pow2_pos[of "- 1074"] by (simp only: mult_le_cancel_right_pos)
  then show ?thesis by (simp add: a b algebra_simps)
qed

lemma onGrid_least: "onGrid a \<Longrightarrow> 0 < a \<Longrightarrow> pow2 (- 1074) \<le> a"
  using onGrid_gap[OF onGrid_0, of a] by simp

lemma dadd_zero [simp]: "dadd (Num 0) x = x"
  by (cases x) simp_all

lemma dadd_pos: "posAmount x \<Longrightarrow> posAmount y \<Longrightarrow> posAmount (dadd x y)"
proof (cases x; cases y)
  fix a b
  assume x: "x = Num a" and y: "y = Num b" and px: "posAmount x" and py: "posAmount y"
  from px x have a: "0 < a" "onGrid a" by (simp_all add: posAmount_def)
  from py y have b: "0 < b" by (simp add: posAmount_def)
  have "pow2 (- 1074) \<le> a" using a by (intro onGrid_least)
  then have "pow2 (- 1074) \<le> a + b" using b by simp
  then have "posAmount (roundDouble (a + b))" by (rule roundDouble_pos)
  then show ?thesis using x y a b by simp
qed (simp_all add: posAmount_def)

lemma posAmount_dlt: "posAmount x \<Longrightarrow> dlt (Num 0) x"
  by (cases x) (simp_all add: posAmount_def)

lemma posAmount_not_NaN: "posAmount x \<Longrightarrow> x \<noteq> NaN"
  by (cases x) (simp_all add: posAmount_def)

lemma dsub_sign:
  assumes "posAmount x" and "posAmount y"
  shows "dlt (Num 0) (dsub y x) = dlt x y"
proof (cases x; cases y)
  fix a b
  assume x: "x = Num a" and y: "y = Num b"
  from assms x y have a: "0 < a" "onGrid a" and b: "0 < b" "onGrid b"
    by (simp_all add: posAmount_def)
  have d: "dsub (Num b) (Num a) = roundDouble (b - a)"
    using a b by (simp add: dsub_def negate_def)
  show ?thesis
  proof (cases "a < b")
    case True
    from onGrid_gap[OF a(2) b(2) True] have "posAmount (roundDouble (b - a))"
      by (rule roundDouble_pos)
    then show ?thesis using True by (simp add: d x y posAmount_dlt)
  next
    case False
    show ?thesis
    proof (cases "a = b")
      case True
      with d have "dsub (Num b) (Num a) = Num 0" by simp
      then show ?thesis using True by (simp add: x y)
    next
      case ne: False
      with False have lt: "b < a" by simp
      from onGrid_gap[OF b(2) a(2) lt] have "posAmount (roundDouble (a - b))"
        by (rule roundDouble_pos)
      moreover have "roundDouble (b - a) = negate (roundDouble (a - b))"
        using roundDouble_minus[of "a - b"] by simp
      ultimately have "\<not> dlt (Num 0) (roundDouble (b - a))"
        by (cases "roundDouble (a - b)") (simp_all add: posAmount_def negate_def)
      then show ?thesis using False by (simp add: d x y)
    qed
  qed
qed (use assms in \<open>simp_all add: posAmount_def dsub_def negate_def\<close>)

lemma dlt_irrefl [simp]: "\<not> dlt x x"
  by (cases x) simp_all

lemma dlt_asym: "dlt x y \<Longrightarrow> \<not> dlt y x"
  by (cases x; cases y) simp_all

lemma dlt_trans_le: "dlt x m \<Longrightarrow> \<not> dlt y m \<Longrightarrow> y \<noteq> NaN \<Longrightarrow> dlt x y"
  by (cases x; cases y; cases m) simp_all

lemma floor_numeral_fraction:
  "\<lfloor>numeral a / numeral b :: rat\<rfloor> = numeral a div numeral b"
  using floor_divide_of_int_eq[of "numeral a" "numeral b", where ?'a = rat] by simp

lemmas num_eval =
  roundDouble_def scaleDown.simps scaleUp.simps roundHalfEven_def pow2_def Let_def
  floor_numeral_fraction

lemma hundredth_value: "hundredth = Num (5764607523034235 / 576460752303423488)"
  unfolding hundredth_def by (simp add: num_eval)

lemma round_899: "roundDouble (899 / 100) = Num (5060920081257595 / 562949953421312)"
  by (simp add: num_eval)

lemma round_gap: "roundDouble (5629499534213 / 562949953421312) = Num (5629499534213 / 562949953421312)"
  by (simp add: num_eval)

section \<open>Rules for worked inputs\<close>

lemmas evt =
  rmatch_code seq_cont_code attach_code grp_cont_code rep_cont_code search.simps
  lit_matches_def cls_matches_def in_ranges_def canonicalize_table lowerChar_table of_char_table
  later_def digit_def space_def Star_def Plus_def Opt_def numberGroup_def currencyWord_def
  labelled_def amountRegexes_def execAll.simps extractAmounts_def pushAmount_def parseFloat_def
  digitsValue_def isDigit_def nameChar_def merchantPatterns_def businessNamePattern_def
  createTitle_def trim_def isWhiteSpace_def toLowerCase_def surrounding_def substring_def Let_def

lemmas assemble_eval =
  handleGetEmailExpense_def assemble_def retained_def syntheticItem_def sortAmounts_def
  compareAmounts_def dsub_def negate_def dabs_def deq_def hundredth_value Let_def

lemmas number_eval =
  toNumber_def stringToNumber_def trim_def isWhiteSpace_def unsignedDecimal_def exponentPart_def
  digitsValue_def isDigit_def of_char_table Let_def

lemmas invoice_eval =
  handleGetInvoiceData_def processInvoice_def normalizeItem_def validHeads_def toLowerCase_def
  lowerChar_table


section \<open>The scan returns, with positive amounts\<close>

lemma rmatch_suffix: "(g, rest) \<in> set (rmatch ic r s) \<Longrightarrow> length rest \<le> length s"
proof (induction ic r s arbitrary: g rest rule: rmatch.induct)
  case (1 ic p s)
  then show ?case by (auto simp: rmatch.simps split: list.splits if_splits)
next
  case (2 ic rs s)
  then show ?case by (auto simp: rmatch.simps split: list.splits if_splits)
next
  case (3 ic s)
  then show ?case by (simp add: rmatch.simps)
next
  case (4 ic a b s)
  from "4.prems" obtain c1 s1 c2 where a: "(c1, s1) \<in> set (rmatch ic a s)"
    and b: "(c2, rest) \<in> set (rmatch ic b s1)"
    by (auto simp: rmatch.simps)
  from "4.IH"(1)[OF a] "4.IH"(2)[OF a refl b] show ?case by simp
next
  case (5 ic a b s)
  then show ?case by (auto simp: rmatch.simps)
next
  case (6 ic r s)
  then show ?case by (auto simp: rmatch.simps)
next
  case (7 ic mn mx r s)
  show ?case
  proof (cases "mx = Some 0")
    case True
    with "7.prems" show ?thesis by (simp add: rmatch.simps)
  next
    case False
    from "7.prems" False consider
      (iter) c1 s1 c2 where "(c1, s1) \<in> set (rmatch ic r s)" "\<not> (mn = 0 \<and> length s \<le> length s1)"
        "(c2, rest) \<in> set (rmatch ic (Rep (mn - 1) (map_option (\<lambda>n. n - 1) mx) r) s1)"
      | (stop) "rest = s"
      by (subst (asm) rmatch.simps) (auto split: if_splits)
    then show ?thesis
    proof cases
      case iter
      from "7.IH"(1)[OF False iter(1)] "7.IH"(2)[OF False iter(1) refl iter(2) iter(3)]
      show ?thesis by simp
    next
      case stop
      then show ?thesis by simp
    qed
  qed
qed

lemma rmatch_consuming:
  "consuming r \<Longrightarrow> (g, rest) \<in> set (rmatch ic r s) \<Longrightarrow> length rest < length s"
proof (induction ic r s arbitrary: g rest rule: rmatch.induct)
  case (1 ic p s)
  then show ?case by (auto simp: rmatch.simps split: list.splits if_splits)
next
  case (2 ic rs s)
  then show ?case by (auto simp: rmatch.simps split: list.splits if_splits)
next
  case (3 ic s)
  then show ?case by simp
next
  case (4 ic a b s)
  from "4.prems" obtain c1 s1 c2 where a: "(c1, s1) \<in> set (rmatch ic a s)"
    and b: "(c2, rest) \<in> set (rmatch ic b s1)"
    by (auto simp: rmatch.simps)
  have la: "length s1 \<le> length s" and lb: "length rest \<le> length s1"
    using rmatch_suffix a b by blast+
  from "4.prems"(1) consider "consuming a" | "consuming b" by auto
  then show ?case
  proof cases
    case 1
    from "4.IH"(1)[OF 1 a] lb show ?thesis by simp
  next
    case 2
    from "4.IH"(2)[OF a refl 2 b] la show ?thesis by simp
  qed
next
  case (5 ic a b s)
  then show ?case by (auto simp: rmatch.simps)
next
  case (6 ic r s)
  then show ?case by (auto simp: rmatch.simps)
next
  case (7 ic mn mx r s)
  from "7.prems"(1) have mn: "0 < mn" and mx: "mx \<noteq> Some 0" and cr: "consuming r" by auto
  from "7.prems"(2) mn mx obtain c1 s1 c2 where a: "(c1, s1) \<in> set (rmatch ic r s)"
    and b: "(c2, rest) \<in> set (rmatch ic (Rep (mn - 1) (map_option (\<lambda>n. n - 1) mx) r) s1)"
    by (subst (asm) rmatch.simps) (auto split: if_splits)
  from "7.IH"(1)[OF mx cr a] rmatch_suffix[OF b] show ?case by simp
qed


lemma search_rest:
  "search ic r i s = Some (m, rest) \<Longrightarrow> length rest \<le> length s"
proof (induction s arbitrary: i)
  case Nil
  then obtain g ps where "rmatch ic r [] = (g, rest) # ps"
    by (auto simp: search.simps split: list.splits)
  then have "(g, rest) \<in> set (rmatch ic r [])" by simp
  from rmatch_suffix[OF this] show ?case .
next
  case (Cons c cs)
  show ?case
  proof (cases "rmatch ic r (c # cs)")
    case Nil
    with Cons.prems have "search ic r (Suc i) cs = Some (m, rest)" by (simp add: search.simps)
    from Cons.IH[OF this] show ?thesis by simp
  next
    case (Cons p ps)
    obtain g rest' where p: "p = (g, rest')" by (cases p)
    with Cons Cons.prems have "rest = rest'" by (simp add: search.simps)
    moreover have "(g, rest') \<in> set (rmatch ic r (c # cs))" using Cons p by simp
    ultimately show ?thesis using rmatch_suffix by blast
  qed
qed

lemma search_consuming:
  "consuming r \<Longrightarrow> search ic r i s = Some (m, rest) \<Longrightarrow> match_text m \<noteq> [] \<and> length rest < length s"
proof (induction s arbitrary: i)
  case Nil
  then obtain g ps where "rmatch ic r [] = (g, rest) # ps"
    by (auto simp: search.simps split: list.splits)
  then have "(g, rest) \<in> set (rmatch ic r [])" by simp
  from rmatch_consuming[OF Nil.prems(1) this] show ?case by simp
next
  case (Cons c cs)
  show ?case
  proof (cases "rmatch ic r (c # cs)")
    case Nil
    with Cons.prems have "search ic r (Suc i) cs = Some (m, rest)" by (simp add: search.simps)
    from Cons.IH[OF Cons.prems(1) this] show ?thesis by simp
  next
    case (Cons p ps)
    obtain g rest' where p: "p = (g, rest')" by (cases p)
    with Cons Cons.prems(2) have r: "rest = rest'"
      and m: "match_text m = take (length (c # cs) - length rest') (c # cs)"
      by (auto simp: search.simps)
    have "(g, rest') \<in> set (rmatch ic r (c # cs))" using Cons p by simp
    from rmatch_consuming[OF Cons.prems(1) this] have "length rest' < length (c # cs)" .
    with r m show ?thesis by auto
  qed
qed

lemma execAll_returns:
  "consuming r \<Longrightarrow> \<exists>ms. execAll ic r i s = Some ms"
proof (induction ic r i s rule: execAll.induct)
  case (1 ic r i s)
  show ?case
  proof (cases "search ic r i s")
    case None
    then show ?thesis by (simp add: execAll.simps)
  next
    case (Some p)
    obtain m rest where p: "p = (m, rest)" by (cases p)
    from search_consuming[OF "1.prems"] Some p
    have ok: "match_text m \<noteq> [] \<and> length rest < length s" by blast
    from "1.IH"[OF Some[unfolded p] refl ok "1.prems"]
    obtain ms where "execAll ic r (match_index m + length (match_text m)) rest = Some ms" by blast
    with Some p ok show ?thesis by (subst execAll.simps) simp
  qed
qed

lemma scanRegexes_returns:
  "\<forall>(ic, r) \<in> set rs. consuming r \<Longrightarrow> \<exists>res. scanRegexes rs t results = Some res"
proof (induction rs arbitrary: results)
  case Nil
  then show ?case by simp
next
  case (Cons p rs)
  obtain ic r where p: "p = (ic, r)" by (cases p)
  with Cons.prems have "consuming r" by simp
  then obtain ms where "execAll ic r 0 t = Some ms" using execAll_returns by blast
  moreover from Cons.prems have "\<forall>(ic, r) \<in> set rs. consuming r" by simp
  ultimately show ?case using Cons.IH p by simp
qed

lemma amountRegexes_consuming: "\<forall>(ic, r) \<in> set amountRegexes. consuming r"
  by (simp add: amountRegexes_def labelled_def numberGroup_def currencyWord_def digit_def
      Star_def Plus_def Opt_def space_def)

lemma extractAmounts_returns: "\<exists>ms. extractAmounts t = Some ms"
  unfolding extractAmounts_def by (rule scanRegexes_returns[OF amountRegexes_consuming])

lemma handleGetEmailExpense_returns: "\<exists>r. handleGetEmailExpense t = Some r"
  using extractAmounts_returns[of t] by (auto simp: handleGetEmailExpense_def)

lemma parseFloat_positive: "dlt (Num 0) (parseFloat s) \<Longrightarrow> posAmount (parseFloat s)"
proof -
  assume d: "dlt (Num 0) (parseFloat s)"
  then have "parseFloat s \<noteq> NaN" by auto
  then obtain q where q: "parseFloat s = roundDouble q"
    by (auto simp: parseFloat_def Let_def split: if_splits)
  show ?thesis
  proof (cases "roundDouble q")
    case (Num r)
    with roundDouble_grid[OF Num] d q show ?thesis by (simp add: posAmount_def)
  qed (use d q in \<open>simp_all add: posAmount_def\<close>)
qed

lemma pushAmount_positive: "positive results \<Longrightarrow> positive (pushAmount results m)"
  by (simp add: positive_def pushAmount_def Let_def parseFloat_positive)

lemma foldl_pushAmount_positive: "positive results \<Longrightarrow> positive (foldl pushAmount results ms)"
  by (induction ms arbitrary: results) (simp_all add: pushAmount_positive)

lemma scanRegexes_positive:
  "positive results \<Longrightarrow> scanRegexes rs t results = Some res \<Longrightarrow> positive res"
proof (induction rs arbitrary: results)
  case Nil
  then show ?case by simp
next
  case (Cons p rs)
  obtain ic r where p: "p = (ic, r)" by (cases p)
  with Cons.prems(2) obtain ms where "execAll ic r 0 t = Some ms"
    and "scanRegexes rs t (foldl pushAmount results ms) = Some res"
    by (auto split: option.splits)
  with Cons.IH foldl_pushAmount_positive[OF Cons.prems(1)] show ?case by blast
qed

lemma extractAmounts_positive: "extractAmounts t = Some ms \<Longrightarrow> positive ms"
  unfolding extractAmounts_def by (rule scanRegexes_positive[of "[]"]) (simp_all add: positive_def)

section \<open>Totals, retained candidates and titles\<close>

lemma sortAmounts_Cons: "sortAmounts (x # ms) = insertSorted x (sortAmounts ms)"
  by (simp add: sortAmounts_def)

lemma set_insertSorted: "set (insertSorted x ys) = insert x (set ys)"
  by (induction ys) auto

lemma set_sortAmounts: "set (sortAmounts ms) = set ms"
  by (induction ms) (simp_all add: sortAmounts_def set_insertSorted)

lemma sortAmounts_Nil: "sortAmounts ms = [] \<longleftrightarrow> ms = []"
  using set_sortAmounts[of ms] by (metis set_empty)

lemma totalAmountOf_in: "ms \<noteq> [] \<Longrightarrow> totalAmountOf ms \<in> m_amount ` set ms"
proof -
  assume "ms \<noteq> []"
  then have "sortAmounts ms \<noteq> []" by (simp add: sortAmounts_Nil)
  then have "hd (sortAmounts ms) \<in> set (sortAmounts ms)" by (rule hd_in_set)
  then show ?thesis by (simp add: totalAmountOf_def set_sortAmounts)
qed

lemma positive_set: "positive ms \<Longrightarrow> m \<in> set ms \<Longrightarrow> posAmount (m_amount m)"
  by (simp add: positive_def list_all_iff)

lemma totalAmountOf_Cons:
  "ms \<noteq> [] \<Longrightarrow>
   totalAmountOf (x # ms) =
     (if dlt (Num 0) (dsub (totalAmountOf ms) (m_amount x)) then totalAmountOf ms else m_amount x)"
proof -
  assume "ms \<noteq> []"
  then obtain y ys where "sortAmounts ms = y # ys"
    by (cases "sortAmounts ms") (simp_all add: sortAmounts_Nil)
  then show ?thesis by (simp add: totalAmountOf_def sortAmounts_Cons compareAmounts_def)
qed

lemma totalAmountOf_max:
  "positive ms \<Longrightarrow> m \<in> set ms \<Longrightarrow> \<not> dlt (totalAmountOf ms) (m_amount m)"
proof (induction ms arbitrary: m)
  case Nil
  then show ?case by simp
next
  case (Cons x ms)
  show ?case
  proof (cases "ms = []")
    case True
    with Cons.prems(2) show ?thesis by (simp add: totalAmountOf_def sortAmounts_def)
  next
    case False
    have pms: "positive ms" using Cons.prems(1) by (simp add: positive_def)
    have px: "posAmount (m_amount x)" using Cons.prems(1) by (simp add: positive_def)
    from totalAmountOf_in[OF False] obtain y where y: "y \<in> set ms"
      and Ty: "totalAmountOf ms = m_amount y" by auto
    have py: "posAmount (totalAmountOf ms)" using positive_set[OF pms y] Ty by simp
    have sgn: "dlt (Num 0) (dsub (totalAmountOf ms) (m_amount x)) = dlt (m_amount x) (totalAmountOf ms)"
      by (rule dsub_sign[OF px py])
    have T: "totalAmountOf (x # ms) =
        (if dlt (m_amount x) (totalAmountOf ms) then totalAmountOf ms else m_amount x)"
      using totalAmountOf_Cons[OF False, of x] sgn by simp
    show ?thesis
    proof (cases "dlt (m_amount x) (totalAmountOf ms)")
      case True
      show ?thesis
      proof (cases "m = x")
        case True
        with \<open>dlt (m_amount x) (totalAmountOf ms)\<close> T show ?thesis by (simp add: dlt_asym)
      next
        case False
        with Cons.prems(2) have "m \<in> set ms" by simp
        from Cons.IH[OF pms this] True T show ?thesis by simp
      qed
    next
      case nlt: False
      show ?thesis
      proof (cases "m = x")
        case True
        with nlt T show ?thesis by simp
      next
        case False
        with Cons.prems(2) have "m \<in> set ms" by simp
        from Cons.IH[OF pms this] have le: "\<not> dlt (totalAmountOf ms) (m_amount m)" .
        have "\<not> dlt (m_amount x) (m_amount m)"
        proof
          assume "dlt (m_amount x) (m_amount m)"
          from dlt_trans_le[OF this le posAmount_not_NaN[OF py]] nlt show False by simp
        qed
        with nlt T show ?thesis by simp
      qed
    qed
  qed
qed

lemma totalAmountOf_positive: "positive ms \<Longrightarrow> ms \<noteq> [] \<Longrightarrow> posAmount (totalAmountOf ms)"
  using totalAmountOf_in[of ms] positive_set[of ms] by auto

lemma assemble_eq:
  "ms \<noteq> [] \<Longrightarrow>
   assemble t ms =
     (let T = totalAmountOf ms;
          loopItems = map (buildItem t) (retained ms T);
          its = (if loopItems = [] then [syntheticItem T] else loopItems);
          c = sumAmounts its
      in Inr \<lparr>total = (if dlt (dabs (dsub c T)) hundredth \<or> length its > 1 then c else T), items = its\<rparr>)"
  by (simp add: assemble_def totalAmountOf_def sumAmounts_def Let_def)

lemma amount_buildItem [simp]: "amount (buildItem t m) = m_amount m"
  by (simp add: buildItem_def Let_def)

lemma deq_positive: "posAmount T \<Longrightarrow> deq x T = (x = T)"
  by (auto simp: deq_def dest: posAmount_not_NaN)

lemma retained_positive:
  "posAmount T \<Longrightarrow>
   retained ms T = (if length ms > 2 then filter (\<lambda>m. m_amount m \<noteq> T) ms
                    else if length ms > 1 then ms else [])"
  by (simp add: retained_def deq_positive)

lemma foldl_dadd_positive:
  "posAmount a \<Longrightarrow> \<forall>i \<in> set its. posAmount (amount i) \<Longrightarrow>
   posAmount (foldl (\<lambda>sum item. dadd sum (amount item)) a its)"
  by (induction its arbitrary: a) (simp_all add: dadd_pos)

lemma sumAmounts_positive:
  "its \<noteq> [] \<Longrightarrow> \<forall>i \<in> set its. posAmount (amount i) \<Longrightarrow> posAmount (sumAmounts its)"
  by (cases its) (simp_all add: sumAmounts_def foldl_dadd_positive)

lemma sumAmounts_single [simp]: "sumAmounts [i] = amount i"
  by (simp add: sumAmounts_def)

lemma text_pipeline_invariant:
  assumes "handleGetEmailExpense t = Some (Inr d)"
  shows "items d \<noteq> [] \<and> posAmount (total d)"
proof -
  from assms obtain ms where ms: "extractAmounts t = Some ms" and a: "assemble t ms = Inr d"
    by (auto simp: handleGetEmailExpense_def)
  from a have ne: "ms \<noteq> []" by (auto simp: assemble_def)
  have pos: "positive ms" by (rule extractAmounts_positive[OF ms])
  let ?T = "totalAmountOf ms"
  have Tpos: "posAmount ?T" by (rule totalAmountOf_positive[OF pos ne])
  let ?loop = "map (buildItem t) (retained ms ?T)"
  let ?its = "if ?loop = [] then [syntheticItem ?T] else ?loop"
  have sub: "set (retained ms ?T) \<subseteq> set ms" by (auto simp: retained_def)
  have ipos: "\<forall>i \<in> set ?its. posAmount (amount i)"
    using Tpos sub positive_set[OF pos] by (auto simp: syntheticItem_def)
  have ine: "?its \<noteq> []" by simp
  have cpos: "posAmount (sumAmounts ?its)" by (rule sumAmounts_positive[OF ine ipos])
  from a ne have d: "d = \<lparr>total = (if dlt (dabs (dsub (sumAmounts ?its) ?T)) hundredth \<or> length ?its > 1
                                   then sumAmounts ?its else ?T), items = ?its\<rparr>"
    by (simp add: assemble_eq Let_def)
  have "items d = ?its" by (subst d) simp
  moreover have "posAmount (total d)" using cpos Tpos by (subst d) (simp del: One_nat_def)
  ultimately show ?thesis using ine by simp
qed



lemma lowerChar_idem: "lowerChar (lowerChar c) = lowerChar c"
  by (auto simp: lowerChar_def Let_def)

lemma toLowerCase_idem: "toLowerCase (toLowerCase s) = toLowerCase s"
  by (simp add: toLowerCase_def lowerChar_idem)







lemma firstCategory_range:
  "firstCategory tbl s = ''unknown'' \<or> firstCategory tbl s \<in> fst ` set tbl"
proof (induction tbl)
  case Nil
  then show ?case by simp
next
  case (Cons p tbl)
  obtain c ks where p: "p = (c, ks)" by (cases p)
  show ?case
  proof (cases "list_ex (includes_str s) ks")
    case True
    then show ?thesis by (simp add: p)
  next
    case False
    with Cons show ?thesis by (auto simp: p)
  qed
qed

lemma firstCategory_unknown:
  "\<forall>(c, ks) \<in> set tbl. \<forall>k \<in> set ks. \<not> includes_str s k \<Longrightarrow> firstCategory tbl s = ''unknown''"
  by (induction tbl) (auto simp: list_ex_iff)

lemma firstCategory_find:
  "firstCategory tbl s =
     (case find (\<lambda>(category, keywords). \<exists>k \<in> set keywords. includes_str s k) tbl of
        Some (category, keywords) \<Rightarrow> category
      | None \<Rightarrow> ''unknown'')"
  by (induction tbl) (auto simp: list_ex_iff)

lemma spec_classify_eq: "spec_classify s = determineCategory (toLowerCase s)"
  by (simp add: spec_classify_def determineCategory_def firstCategory_find)

lemma toLowerCase_substring: "toLowerCase (substring s a b) = substring (toLowerCase s) a b"
  by (simp add: toLowerCase_def substring_def take_map drop_map)

lemma surrounding_window: "surrounding t m = toLowerCase (contextWindow t m)"
  by (simp add: surrounding_def contextWindow_def Let_def)

lemma surrounding_case:
  assumes "toLowerCase t' = toLowerCase t"
  shows "surrounding t' m = surrounding t m"
proof -
  have "length (toLowerCase t') = length (toLowerCase t)" using assms by simp
  then have "length t' = length t" by (simp add: toLowerCase_def)
  then show ?thesis using assms by (simp add: surrounding_def Let_def toLowerCase_substring)
qed

section \<open>Validation of a parsed structure\<close>

lemma getProp_setProp_same: "getProp (JObject (setProp kvs k v)) k = v"
  by (induction kvs) auto

lemma getProp_setProp_other:
  "k' \<noteq> k \<Longrightarrow> getProp (JObject (setProp kvs k v)) k' = getProp (JObject kvs) k'"
  by (induction kvs) auto

lemma normalizeItem_ok:
  "acceptable x \<Longrightarrow> \<exists>y. normalizeItem x = Inr y \<and> normalized x y"
proof -
  assume "acceptable x"
  then obtain kvs h where x: "x = JObject kvs" and h: "getProp x ''head'' = JString h"
    and a: "\<not> throwing (getProp x ''amount'')"
    by (auto simp: acceptable_def hasStringHead_def split: jsval.splits)
  define n where "n = numericValue (getProp x ''amount'')"
  define y where "y = JObject (setProp (setProp kvs ''amount'' (JNumber n)) ''head'' (JString (clamped h)))"
  have "normalizeItem x = Inr y"
    using h a by (simp add: normalizeItem_def x y_def n_def clamped_def toNumber_def)
  moreover have "getProp y ''amount'' = JNumber n"
    by (simp add: y_def getProp_setProp_same getProp_setProp_other del: getProp.simps)
  moreover have "getProp y ''head'' = JString (clamped h)"
    by (simp add: y_def getProp_setProp_same del: getProp.simps)
  moreover have "getProp y k = getProp x k" if "k \<noteq> ''amount'' \<and> k \<noteq> ''head''" for k
    using that by (simp add: y_def x getProp_setProp_other del: getProp.simps)
  ultimately show ?thesis using h by (auto simp: normalized_def n_def y_def)
qed

lemma normalizeItem_only: "normalizeItem x = Inr y \<Longrightarrow> acceptable x"
  by (auto simp: normalizeItem_def acceptable_def hasStringHead_def toNumber_def
           split: jsval.splits sum.splits if_splits)

lemma mapItems_ok:
  "list_all acceptable xs \<Longrightarrow> \<exists>ys. mapItems xs = Inr ys \<and> list_all2 normalized xs ys"
proof (induction xs)
  case Nil
  then show ?case by simp
next
  case (Cons x xs)
  then obtain y where "normalizeItem x = Inr y" "normalized x y"
    using normalizeItem_ok by auto
  moreover from Cons obtain ys where "mapItems xs = Inr ys" "list_all2 normalized xs ys" by auto
  ultimately show ?case by simp
qed

lemma mapItems_only: "mapItems xs = Inr ys \<Longrightarrow> list_all acceptable xs"
proof (induction xs arbitrary: ys)
  case Nil
  then show ?case by simp
next
  case (Cons x xs)
  from Cons.prems obtain y ys' where y: "normalizeItem x = Inr y" and "mapItems xs = Inr ys'"
    by (auto split: sum.splits)
  with Cons.IH normalizeItem_only[OF y] show ?case by simp
qed

lemma mapItems_length: "mapItems xs = Inr ys \<Longrightarrow> length ys = length xs"
  by (induction xs arbitrary: ys) (auto split: sum.splits)

section \<open>Texts without letters\<close>

text \<open>
  Every match of a pattern that requires a letter contains one: on a text without letters
  such a pattern finds nothing.
\<close>

lemma of_char_canonicalize:
  "(of_char (canonicalize c) :: nat) =
     (if (97 \<le> (of_char c :: nat) \<and> (of_char c :: nat) \<le> 122)
         \<or> (224 \<le> (of_char c :: nat) \<and> (of_char c :: nat) \<le> 254 \<and> (of_char c :: nat) \<noteq> 247)
      then of_char c - 32 else of_char c)"
  by (auto simp: canonicalize_def Let_def)

lemma lit_matches_letter: "lit_matches ic p c \<Longrightarrow> isLetter p \<Longrightarrow> isLetter c"
proof -
  assume m: "lit_matches ic p c" and p: "isLetter p"
  show ?thesis
  proof (cases "p = c")
    case True
    with p show ?thesis by simp
  next
    case False
    with m have "canonicalize p = canonicalize c" by (simp add: lit_matches_def)
    then have "(of_char (canonicalize p) :: nat) = of_char (canonicalize c)" by simp
    then show ?thesis using p by (auto simp: of_char_canonicalize isLetter_def Let_def split: if_splits)
  qed
qed

lemma rmatch_prefix:
  "(g, rest) \<in> set (rmatch ic r s) \<Longrightarrow>
   \<exists>pre. s = pre @ rest \<and> (lettered r \<longrightarrow> (\<exists>c \<in> set pre. isLetter c))"
proof (induction ic r s arbitrary: g rest rule: rmatch.induct)
  case (1 ic p s)
  then obtain c where s: "s = c # rest" and m: "lit_matches ic p c"
    by (auto simp: rmatch.simps split: list.splits if_splits)
  have "lettered (Lit p) \<longrightarrow> (\<exists>c \<in> set [c]. isLetter c)" using lit_matches_letter[OF m] by simp
  with s show ?case by (intro exI[of _ "[c]"]) simp
next
  case (2 ic rs s)
  then obtain c where s: "s = c # rest"
    by (auto simp: rmatch.simps split: list.splits if_splits)
  then show ?case by (intro exI[of _ "[c]"]) simp
next
  case (3 ic s)
  then show ?case by (simp add: rmatch.simps)
next
  case (4 ic a b s)
  from "4.prems" obtain c1 s1 c2 where a: "(c1, s1) \<in> set (rmatch ic a s)"
    and b: "(c2, rest) \<in> set (rmatch ic b s1)"
    by (auto simp: rmatch.simps)
  from "4.IH"(1)[OF a] obtain p1 where p1: "s = p1 @ s1"
    "lettered a \<longrightarrow> (\<exists>c \<in> set p1. isLetter c)" by blast
  from "4.IH"(2)[OF a refl b] obtain p2 where p2: "s1 = p2 @ rest"
    "lettered b \<longrightarrow> (\<exists>c \<in> set p2. isLetter c)" by blast
  have "s = (p1 @ p2) @ rest" using p1(1) p2(1) by simp
  moreover have "lettered (Seq a b) \<longrightarrow> (\<exists>c \<in> set (p1 @ p2). isLetter c)"
    using p1(2) p2(2) by auto
  ultimately show ?case by blast
next
  case (5 ic a b s)
  from "5.prems" consider "(g, rest) \<in> set (rmatch ic a s)" | "(g, rest) \<in> set (rmatch ic b s)"
    by (auto simp: rmatch.simps)
  then show ?case
  proof cases
    case 1
    from "5.IH"(1)[OF 1] show ?thesis by auto
  next
    case 2
    from "5.IH"(2)[OF 2] show ?thesis by auto
  qed
next
  case (6 ic r s)
  from "6.prems" obtain c where "(c, rest) \<in> set (rmatch ic r s)"
    by (auto simp: rmatch.simps)
  from "6.IH"[OF this] show ?case by simp
next
  case (7 ic mn mx r s)
  show ?case
  proof (cases "mx = Some 0")
    case True
    with "7.prems" have "rest = s" by (simp add: rmatch.simps)
    with True show ?thesis by simp
  next
    case False
    from "7.prems" False consider
      (iter) c1 s1 c2 where "(c1, s1) \<in> set (rmatch ic r s)" "\<not> (mn = 0 \<and> length s \<le> length s1)"
        "(c2, rest) \<in> set (rmatch ic (Rep (mn - 1) (map_option (\<lambda>n. n - 1) mx) r) s1)"
      | (stop) "rest = s" "mn = 0"
      by (subst (asm) rmatch.simps) (auto split: if_splits)
    then show ?thesis
    proof cases
      case iter
      from "7.IH"(1)[OF False iter(1)] obtain p1 where p1: "s = p1 @ s1"
        "lettered r \<longrightarrow> (\<exists>c \<in> set p1. isLetter c)" by blast
      from "7.IH"(2)[OF False iter(1) refl iter(2) iter(3)] obtain p2 where p2: "s1 = p2 @ rest"
        by blast
      have "s = (p1 @ p2) @ rest" using p1(1) p2 by simp
      moreover have "lettered (Rep mn mx r) \<longrightarrow> (\<exists>c \<in> set (p1 @ p2). isLetter c)"
        using p1(2) by auto
      ultimately show ?thesis by blast
    next
      case stop
      then show ?thesis by simp
    qed
  qed
qed

lemma rmatch_no_letter:
  assumes "lettered r" and "\<forall>c \<in> set s. \<not> isLetter c"
  shows "rmatch ic r s = []"
proof (cases "rmatch ic r s")
  case Nil
  then show ?thesis .
next
  case (Cons p ps)
  obtain g rest where "p = (g, rest)" by (cases p)
  with Cons have "(g, rest) \<in> set (rmatch ic r s)" by simp
  from rmatch_prefix[OF this] assms show ?thesis by auto
qed

lemma search_no_letter:
  "lettered r \<Longrightarrow> \<forall>c \<in> set s. \<not> isLetter c \<Longrightarrow> search ic r i s = None"
proof (induction s arbitrary: i)
  case Nil
  then show ?case by (simp add: search.simps rmatch_no_letter)
next
  case (Cons c cs)
  then have "rmatch ic r (c # cs) = []" by (intro rmatch_no_letter) simp_all
  with Cons show ?case by (simp add: search.simps)
qed

lemma scanRegexes_no_letter:
  "\<forall>(ic, r) \<in> set rs. lettered r \<Longrightarrow> \<forall>c \<in> set t. \<not> isLetter c \<Longrightarrow>
   scanRegexes rs t results = Some results"
proof (induction rs)
  case Nil
  then show ?case by simp
next
  case (Cons p rs)
  obtain ic r where p: "p = (ic, r)" by (cases p)
  with Cons.prems have "search ic r 0 t = None" by (intro search_no_letter) simp_all
  then have "execAll ic r 0 t = Some []" by (simp add: execAll.simps)
  with Cons p show ?case by simp
qed

section \<open>An amount beyond the largest number\<close>

text \<open>
  The text \<open>$1\<close> followed by 103 groups \<open>,000\<close> holds the amount \<open>10 ^ 309\<close>, which
  is above every finite number of the language. The dollar pattern matches the whole text;
  the other ten patterns need a letter and the text has none.
\<close>

lemma thousands_Suc:
  "thousands (Suc n) = CHR '','' # CHR ''0'' # CHR ''0'' # CHR ''0'' # thousands n"
  by (simp add: thousands_def)

lemma commaGroup_match:
  "rmatch False (Seq (Lit CHR '','') (Rep 3 (Some 3) digit))
     (CHR '','' # CHR ''0'' # CHR ''0'' # CHR ''0'' # s) = [(None, s)]"
  by (simp add: evt)

lemma commaGroup_Nil: "rmatch False (Seq (Lit CHR '','') (Rep 3 (Some 3) digit)) [] = []"
  by (simp add: evt)

lemma star_step:
  "rmatch False (Rep 0 None (Seq (Lit CHR '','') (Rep 3 (Some 3) digit)))
     (CHR '','' # CHR ''0'' # CHR ''0'' # CHR ''0'' # s) =
     attach None (rmatch False (Rep 0 None (Seq (Lit CHR '','') (Rep 3 (Some 3) digit))) s)
     @ [(None, CHR '','' # CHR ''0'' # CHR ''0'' # CHR ''0'' # s)]"
  by (subst rmatch_Rep_code) (simp add: commaGroup_match rep_cont_code)

lemma star_thousands:
  "\<exists>rs. rmatch False (Star (Seq (Lit CHR '','') (Rep 3 (Some 3) digit))) (thousands n) = (None, []) # rs"
proof (induction n)
  case 0
  have "rmatch False (Rep 0 None (Seq (Lit CHR '','') (Rep 3 (Some 3) digit))) [] = [(None, [])]"
    by (subst rmatch_Rep_code) (simp add: commaGroup_Nil rep_cont_code)
  then show ?case by (simp add: Star_def thousands_def)
next
  case (Suc n)
  then obtain rs where
    "rmatch False (Rep 0 None (Seq (Lit CHR '','') (Rep 3 (Some 3) digit))) (thousands n) = (None, []) # rs"
    by (auto simp: Star_def)
  then show ?case
    by (simp add: Star_def thousands_Suc star_step attach_code later_def)
qed

lemma digits_thousands:
  "rmatch False (Rep 1 (Some 3) digit) (CHR ''1'' # thousands n) = [(None, thousands n)]"
proof (cases n)
  case 0
  then show ?thesis by (simp add: evt thousands_def)
next
  case (Suc k)
  then show ?thesis by (simp add: evt thousands_Suc)
qed

lemma cents_Nil: "rmatch False (Opt (Seq (Lit CHR ''.'') (Rep 2 (Some 2) digit))) [] = [(None, [])]"
  by (simp add: evt)

lemma numberGroup_thousands:
  "\<exists>rs. rmatch False numberGroup (CHR ''1'' # thousands n) = (Some (CHR ''1'' # thousands n), []) # rs"
proof -
  obtain rs where
    "rmatch False (Star (Seq (Lit CHR '','') (Rep 3 (Some 3) digit))) (thousands n) = (None, []) # rs"
    using star_thousands by blast
  then show ?thesis
    by (simp add: numberGroup_def rmatch_code(4,6) seq_cont_code attach_code grp_cont_code later_def
        digits_thousands cents_Nil del: One_nat_def)
qed

lemma spaces_digit: "rmatch False (Star space) (CHR ''1'' # s) = [(None, CHR ''1'' # s)]"
  by (simp add: evt)

lemma dollar_thousands:
  "\<exists>rs. rmatch False (Seqs [Lit CHR ''$'', Star space, numberGroup]) (CHR ''$'' # CHR ''1'' # thousands n) =
          (Some (CHR ''1'' # thousands n), []) # rs"
proof -
  obtain rs where
    "rmatch False numberGroup (CHR ''1'' # thousands n) = (Some (CHR ''1'' # thousands n), []) # rs"
    using numberGroup_thousands by blast
  then show ?thesis
    by (simp add: rmatch_code(1,4) lit_matches_def seq_cont_code attach_code later_def spaces_digit)
qed

lemma dollar_Nil: "rmatch False (Seqs [Lit CHR ''$'', Star space, numberGroup]) [] = []"
  by (simp add: evt)

lemma execAll_thousands:
  "execAll False (Seqs [Lit CHR ''$'', Star space, numberGroup]) 0 (CHR ''$'' # CHR ''1'' # thousands n) =
     Some [\<lparr>match_index = 0, match_text = CHR ''$'' # CHR ''1'' # thousands n,
            match_group = Some (CHR ''1'' # thousands n)\<rparr>]"
proof -
  let ?r = "Seqs [Lit CHR ''$'', Star space, numberGroup]"
  obtain rs where
    "rmatch False ?r (CHR ''$'' # CHR ''1'' # thousands n) = (Some (CHR ''1'' # thousands n), []) # rs"
    using dollar_thousands by blast
  then have s: "search False ?r 0 (CHR ''$'' # CHR ''1'' # thousands n) =
      Some (\<lparr>match_index = 0, match_text = CHR ''$'' # CHR ''1'' # thousands n,
              match_group = Some (CHR ''1'' # thousands n)\<rparr>, [])"
    by (simp add: search.simps del: Seqs.simps)
  have e: "execAll False ?r i [] = Some []" for i
    by (subst execAll.simps) (simp add: search.simps dollar_Nil del: Seqs.simps)
  show ?thesis by (subst execAll.simps) (simp add: s e del: Seqs.simps)
qed

lemma replicate_three: "replicate (3 + k) c = c # c # c # replicate k c"
  by (simp add: numeral_3_eq_3)

lemma filter_thousands: "filter (\<lambda>c. c \<noteq> CHR '','') (thousands n) = replicate (3 * n) CHR ''0''"
  by (induction n) (simp_all add: thousands_def replicate_three)

lemma digitsValue_zeros:
  "foldl (\<lambda>a c. 10 * a + (of_char c - 48)) (a :: nat) (replicate k CHR ''0'') = a * 10 ^ k"
  by (induction k arbitrary: a) (simp_all add: of_char_table)

lemma parseFloat_zeros:
  "parseFloat (CHR ''1'' # replicate k CHR ''0'') = roundDouble (10 ^ k)"
proof -
  have d: "\<forall>c \<in> set (CHR ''1'' # replicate k CHR ''0''). isDigit c"
    by (auto simp: isDigit_def of_char_table)
  then have t: "takeWhile isDigit (CHR ''1'' # replicate k CHR ''0'') = CHR ''1'' # replicate k CHR ''0''"
    by (simp only: takeWhile_eq_all_conv)
  from d have r: "dropWhile isDigit (CHR ''1'' # replicate k CHR ''0'') = []"
    by (simp only: dropWhile_eq_Nil_conv)
  have v: "digitsValue (CHR ''1'' # replicate k CHR ''0'') = 10 ^ k"
    by (simp add: digitsValue_def digitsValue_zeros of_char_table)
  have e: "digitsValue [] = 0" by (simp add: digitsValue_def)
  show ?thesis unfolding parseFloat_def t r Let_def by (simp add: v e)
qed

lemma parseFloat_thousands:
  "parseFloat (CHR ''1'' # filter (\<lambda>c. c \<noteq> CHR '','') (thousands 103)) = PosInf"
proof -
  have "roundDouble (10 ^ (3 * 103)) = PosInf" by (rule roundDouble_overflow) simp
  then show ?thesis by (simp only: filter_thousands parseFloat_zeros)
qed

lemma thousands_no_letter: "\<forall>c \<in> set (CHR ''$'' # CHR ''1'' # thousands n). \<not> isLetter c"
proof -
  have "set (thousands n) \<subseteq> {CHR '','', CHR ''0''}"
    by (induction n) (auto simp: thousands_def)
  moreover have "\<not> isLetter CHR '',''" "\<not> isLetter CHR ''0''" "\<not> isLetter CHR ''$''" "\<not> isLetter CHR ''1''"
    by (simp_all add: isLetter_def of_char_table)
  ultimately show ?thesis by auto
qed

lemma amountRegexes_lettered: "\<forall>(ic, r) \<in> set (tl amountRegexes). lettered r"
  by (simp add: amountRegexes_def labelled_def currencyWord_def isLetter_def of_char_table)

lemma amountRegexes_first:
  "amountRegexes = (False, Seqs [Lit CHR ''$'', Star space, numberGroup]) # tl amountRegexes"
  by (simp add: amountRegexes_def)

lemma scan_overflow:
  "extractAmounts (CHR ''$'' # CHR ''1'' # thousands 103) =
     Some [\<lparr>m_amount = PosInf, m_text = CHR ''$'' # CHR ''1'' # thousands 103, m_index = 0\<rparr>]"
proof -
  have "extractAmounts (CHR ''$'' # CHR ''1'' # thousands 103) =
      scanRegexes ((False, Seqs [Lit CHR ''$'', Star space, numberGroup]) # tl amountRegexes)
        (CHR ''$'' # CHR ''1'' # thousands 103) []"
    unfolding extractAmounts_def by (subst amountRegexes_first) (rule refl)
  also have "\<dots> = scanRegexes (tl amountRegexes) (CHR ''$'' # CHR ''1'' # thousands 103)
      [\<lparr>m_amount = PosInf, m_text = CHR ''$'' # CHR ''1'' # thousands 103, m_index = 0\<rparr>]"
    by (simp add: execAll_thousands pushAmount_def Let_def parseFloat_thousands del: Seqs.simps)
  also have "\<dots> = Some [\<lparr>m_amount = PosInf, m_text = CHR ''$'' # CHR ''1'' # thousands 103, m_index = 0\<rparr>]"
    by (rule scanRegexes_no_letter[OF amountRegexes_lettered thousands_no_letter])
  finally show ?thesis .
qed

lemma expense_overflow:
  "handleGetEmailExpense (CHR ''$'' # CHR ''1'' # thousands 103) =
     Some (Inr \<lparr>total = PosInf,
                 items = [\<lparr>amount = PosInf, title = ''Expense from email'', head = ''unknown''\<rparr>]\<rparr>)"
  by (simp add: handleGetEmailExpense_def scan_overflow assemble_def sortAmounts_def retained_def
      syntheticItem_def dsub_def negate_def dabs_def Let_def)

section \<open>Worked inputs\<close>

lemma round_25_2: "roundDouble (25 / 2) = Num (25 / 2)"
  by (simp add: num_eval)

lemma scan_payment:
  "extractAmounts ''Your payment of $45.00 was successful'' =
     Some [\<lparr>m_amount = Num 45, m_text = ''$45.00'', m_index = 16\<rparr>,
           \<lparr>m_amount = Num 45, m_text = ''payment of $45.00'', m_index = 5\<rparr>]"
  by (simp add: evt)

lemma category_payment: "determineCategory ''your payment of $45.00 was successful'' = ''unknown''"
  by code_simp

lemma item_payment_1:
  "buildItem ''Your payment of $45.00 was successful'' \<lparr>m_amount = Num 45, m_text = ''$45.00'', m_index = 16\<rparr> =
     \<lparr>amount = Num 45, title = ''Expense'', head = ''unknown''\<rparr>"
proof -
  have s: "surrounding ''Your payment of $45.00 was successful'' \<lparr>m_amount = Num 45, m_text = ''$45.00'', m_index = 16\<rparr> = ''your payment of $45.00 was successful''"
    by (simp add: evt)
  have t: "createTitle ''your payment of $45.00 was successful'' ''$45.00'' = ''Expense''"
    by (simp add: evt)
  show ?thesis by (simp add: buildItem_def s t category_payment)
qed

lemma item_payment_2:
  "buildItem ''Your payment of $45.00 was successful'' \<lparr>m_amount = Num 45, m_text = ''payment of $45.00'', m_index = 5\<rparr> =
     \<lparr>amount = Num 45, title = ''Expense'', head = ''unknown''\<rparr>"
proof -
  have s: "surrounding ''Your payment of $45.00 was successful'' \<lparr>m_amount = Num 45, m_text = ''payment of $45.00'', m_index = 5\<rparr> = ''your payment of $45.00 was successful''"
    by (simp add: evt)
  have t: "createTitle ''your payment of $45.00 was successful'' ''payment of $45.00'' = ''Expense''"
    by (simp add: evt)
  show ?thesis by (simp add: buildItem_def s t category_payment)
qed

lemma expense_payment:
  "handleGetEmailExpense ''Your payment of $45.00 was successful'' =
     Some (Inr \<lparr>total = Num 90,
                 items = [\<lparr>amount = Num 45, title = ''Expense'', head = ''unknown''\<rparr>,
                          \<lparr>amount = Num 45, title = ''Expense'', head = ''unknown''\<rparr>]\<rparr>)"
  by (simp add: assemble_eval scan_payment item_payment_1 item_payment_2)

lemma scan_dollars:
  "extractAmounts ''You paid 45 dollars'' =
     Some [\<lparr>m_amount = Num 45, m_text = ''45 dollars'', m_index = 9\<rparr>]"
  by (simp add: evt)

lemma expense_dollars:
  "handleGetEmailExpense ''You paid 45 dollars'' =
     Some (Inr \<lparr>total = Num 45,
                 items = [\<lparr>amount = Num 45, title = ''Expense from email'', head = ''unknown''\<rparr>]\<rparr>)"
  by (simp add: assemble_eval scan_dollars)

lemma scan_two_fives:
  "extractAmounts ''$5 $5'' =
     Some [\<lparr>m_amount = Num 5, m_text = ''$5'', m_index = 0\<rparr>,
           \<lparr>m_amount = Num 5, m_text = ''$5'', m_index = 3\<rparr>]"
  by (simp add: evt)

lemma category_two_fives: "determineCategory ''$5 $5'' = ''unknown''"
  by code_simp

lemma item_two_fives_1:
  "buildItem ''$5 $5'' \<lparr>m_amount = Num 5, m_text = ''$5'', m_index = 0\<rparr> =
     \<lparr>amount = Num 5, title = ''Expense'', head = ''unknown''\<rparr>"
proof -
  have s: "surrounding ''$5 $5'' \<lparr>m_amount = Num 5, m_text = ''$5'', m_index = 0\<rparr> = ''$5 $5''"
    by (simp add: evt)
  have t: "createTitle ''$5 $5'' ''$5'' = ''Expense''"
    by (simp add: evt)
  show ?thesis by (simp add: buildItem_def s t category_two_fives)
qed

lemma item_two_fives_2:
  "buildItem ''$5 $5'' \<lparr>m_amount = Num 5, m_text = ''$5'', m_index = 3\<rparr> =
     \<lparr>amount = Num 5, title = ''Expense'', head = ''unknown''\<rparr>"
proof -
  have s: "surrounding ''$5 $5'' \<lparr>m_amount = Num 5, m_text = ''$5'', m_index = 3\<rparr> = ''$5 $5''"
    by (simp add: evt)
  have t: "createTitle ''$5 $5'' ''$5'' = ''Expense''"
    by (simp add: evt)
  show ?thesis by (simp add: buildItem_def s t category_two_fives)
qed

lemma expense_two_fives:
  "handleGetEmailExpense ''$5 $5'' =
     Some (Inr \<lparr>total = Num 10,
                 items = [\<lparr>amount = Num 5, title = ''Expense'', head = ''unknown''\<rparr>,
                          \<lparr>amount = Num 5, title = ''Expense'', head = ''unknown''\<rparr>]\<rparr>)"
  by (simp add: assemble_eval scan_two_fives item_two_fives_1 item_two_fives_2)

lemma scan_nine_one:
  "extractAmounts ''payment $9 $1'' =
     Some [\<lparr>m_amount = Num 9, m_text = ''$9'', m_index = 8\<rparr>,
           \<lparr>m_amount = Num 1, m_text = ''$1'', m_index = 11\<rparr>,
           \<lparr>m_amount = Num 9, m_text = ''payment $9'', m_index = 0\<rparr>]"
  by (simp add: evt)

lemma category_nine_one: "determineCategory ''payment $9 $1'' = ''unknown''"
  by code_simp

lemma item_nine_one_1:
  "buildItem ''payment $9 $1'' \<lparr>m_amount = Num 1, m_text = ''$1'', m_index = 11\<rparr> =
     \<lparr>amount = Num 1, title = ''Expense'', head = ''unknown''\<rparr>"
proof -
  have s: "surrounding ''payment $9 $1'' \<lparr>m_amount = Num 1, m_text = ''$1'', m_index = 11\<rparr> = ''payment $9 $1''"
    by (simp add: evt)
  have t: "createTitle ''payment $9 $1'' ''$1'' = ''Expense''"
    by (simp add: evt)
  show ?thesis by (simp add: buildItem_def s t category_nine_one)
qed

lemma expense_nine_one:
  "handleGetEmailExpense ''payment $9 $1'' =
     Some (Inr \<lparr>total = Num 9,
                 items = [\<lparr>amount = Num 1, title = ''Expense'', head = ''unknown''\<rparr>]\<rparr>)"
  by (simp add: assemble_eval scan_nine_one item_nine_one_1)

lemma scan_threshold:
  "extractAmounts ''payment $9.00 $8.99'' =
     Some [\<lparr>m_amount = Num 9, m_text = ''$9.00'', m_index = 8\<rparr>,
           \<lparr>m_amount = Num (5060920081257595 / 562949953421312), m_text = ''$8.99'', m_index = 14\<rparr>,
           \<lparr>m_amount = Num 9, m_text = ''payment $9.00'', m_index = 0\<rparr>]"
  by (simp add: evt round_899)

lemma category_threshold: "determineCategory ''payment $9.00 $8.99'' = ''unknown''"
  by code_simp

lemma item_threshold_1:
  "buildItem ''payment $9.00 $8.99'' \<lparr>m_amount = Num (5060920081257595 / 562949953421312), m_text = ''$8.99'', m_index = 14\<rparr> =
     \<lparr>amount = Num (5060920081257595 / 562949953421312), title = ''Expense'', head = ''unknown''\<rparr>"
proof -
  have s: "surrounding ''payment $9.00 $8.99'' \<lparr>m_amount = Num (5060920081257595 / 562949953421312), m_text = ''$8.99'', m_index = 14\<rparr> = ''payment $9.00 $8.99''"
    by (simp add: evt)
  have t: "createTitle ''payment $9.00 $8.99'' ''$8.99'' = ''Expense''"
    by (simp add: evt)
  show ?thesis by (simp add: buildItem_def s t category_threshold)
qed

lemma expense_threshold:
  "handleGetEmailExpense ''payment $9.00 $8.99'' =
     Some (Inr \<lparr>total = Num (5060920081257595 / 562949953421312),
                 items = [\<lparr>amount = Num (5060920081257595 / 562949953421312), title = ''Expense'', head = ''unknown''\<rparr>]\<rparr>)"
  by (simp add: assemble_eval scan_threshold item_threshold_1 round_gap roundDouble_minus)






lemma scan_three_fives:
  "extractAmounts ''payment $5 $5'' =
     Some [\<lparr>m_amount = Num 5, m_text = ''$5'', m_index = 8\<rparr>,
           \<lparr>m_amount = Num 5, m_text = ''$5'', m_index = 11\<rparr>,
           \<lparr>m_amount = Num 5, m_text = ''payment $5'', m_index = 0\<rparr>]"
  by (simp add: evt)

lemma scan_upper:
  "extractAmounts ''FOOD $5 $6'' =
     Some [\<lparr>m_amount = Num 5, m_text = ''$5'', m_index = 5\<rparr>,
           \<lparr>m_amount = Num 6, m_text = ''$6'', m_index = 8\<rparr>]"
  by (simp add: evt)

lemma category_upper: "determineCategory ''food $5 $6'' = ''food''"
  by code_simp

lemma item_upper_1:
  "buildItem ''FOOD $5 $6'' \<lparr>m_amount = Num 5, m_text = ''$5'', m_index = 5\<rparr> =
     \<lparr>amount = Num 5, title = ''Expense'', head = ''food''\<rparr>"
proof -
  have s: "surrounding ''FOOD $5 $6'' \<lparr>m_amount = Num 5, m_text = ''$5'', m_index = 5\<rparr> = ''food $5 $6''"
    by (simp add: evt)
  have t: "createTitle ''food $5 $6'' ''$5'' = ''Expense''"
    by (simp add: evt)
  show ?thesis by (simp add: buildItem_def s t category_upper)
qed

lemma item_upper_2:
  "buildItem ''FOOD $5 $6'' \<lparr>m_amount = Num 6, m_text = ''$6'', m_index = 8\<rparr> =
     \<lparr>amount = Num 6, title = ''Expense'', head = ''food''\<rparr>"
proof -
  have s: "surrounding ''FOOD $5 $6'' \<lparr>m_amount = Num 6, m_text = ''$6'', m_index = 8\<rparr> = ''food $5 $6''"
    by (simp add: evt)
  have t: "createTitle ''food $5 $6'' ''$6'' = ''Expense''"
    by (simp add: evt)
  show ?thesis by (simp add: buildItem_def s t category_upper)
qed

lemma expense_upper:
  "handleGetEmailExpense ''FOOD $5 $6'' =
     Some (Inr \<lparr>total = Num 11,
                 items = [\<lparr>amount = Num 5, title = ''Expense'', head = ''food''\<rparr>,
                          \<lparr>amount = Num 6, title = ''Expense'', head = ''food''\<rparr>]\<rparr>)"
  by (simp add: assemble_eval scan_upper item_upper_1 item_upper_2)

section \<open>The claims\<close>

subsection \<open>A single amount in a payment notice\<close>

text \<open>
  C1 promises, for the text \<open>Your payment of $45.00 was successful\<close>, the total 45 and
  one synthetic line item. That is what the text pipeline returns when one pattern finds the
  amount, as in \<open>You paid 45 dollars\<close>. In the text of the claim the dollar pattern
  finds \<open>$45.00\<close> at position 16 and the payment pattern finds \<open>payment of $45.00\<close>
  at position 5: the one amount is counted twice, so the pipeline returns the total 90 and
  two line items of 45, each with the title \<open>Expense\<close> and the category \<open>unknown\<close>.
\<close>

theorem payment_email_two_items:
  "handleGetEmailExpense ''Your payment of $45.00 was successful'' =
     Some (Inr \<lparr>total = Num 90,
                 items = [\<lparr>amount = Num 45, title = ''Expense'', head = ''unknown''\<rparr>,
                          \<lparr>amount = Num 45, title = ''Expense'', head = ''unknown''\<rparr>]\<rparr>) \<and>
   handleGetEmailExpense ''You paid 45 dollars'' =
     Some (Inr \<lparr>total = Num 45,
                 items = [\<lparr>amount = Num 45, title = ''Expense from email'', head = ''unknown''\<rparr>]\<rparr>)"
  by (simp add: expense_payment expense_dollars)

subsection \<open>More than two candidates\<close>

text \<open>
  C2, as written, says that with more than two candidates the returned total is the sum
  of the retained line items. In \<open>payment $9 $1\<close> the scan finds 9, 1 and 9 again; both
  nines are skipped, the only line item is 1, and the total is the provisional total 9.
\<close>

theorem one_retained_item_total:
  "extractAmounts ''payment $9 $1'' =
     Some [\<lparr>m_amount = Num 9, m_text = ''$9'', m_index = 8\<rparr>,
           \<lparr>m_amount = Num 1, m_text = ''$1'', m_index = 11\<rparr>,
           \<lparr>m_amount = Num 9, m_text = ''payment $9'', m_index = 0\<rparr>] \<and>
   handleGetEmailExpense ''payment $9 $1'' =
     Some (Inr \<lparr>total = Num 9,
                 items = [\<lparr>amount = Num 1, title = ''Expense'', head = ''unknown''\<rparr>]\<rparr>) \<and>
   sumAmounts [\<lparr>amount = Num 1, title = ''Expense'', head = ''unknown''\<rparr>] \<noteq> Num 9"
  by (simp add: scan_nine_one expense_nine_one)

text \<open>
  C2, amended: when the scan yields more than two candidates, the provisional total is the
  value of one of them and no candidate is larger; every candidate whose value equals it is
  skipped, and if none is left the single synthetic item carries the provisional total. The
  returned total is the floating-point sum of the line items, added in order, except when
  exactly one candidate is retained and the floating-point distance between its value and
  the provisional total is not below the floating-point number 0.01: then the provisional
  total is returned.
\<close>

theorem more_than_two_candidates:
  assumes "extractAmounts t = Some ms" and "2 < length ms"
  shows "\<exists>d. handleGetEmailExpense t = Some (Inr d) \<and>
           (let T = totalAmountOf ms;
                kept = filter (\<lambda>m. m_amount m \<noteq> T) ms
            in T \<in> m_amount ` set ms \<and> (\<forall>m \<in> set ms. \<not> dlt T (m_amount m)) \<and>
               items d = (if kept = [] then [syntheticItem T] else map (buildItem t) kept) \<and>
               total d = (if length kept = 1 \<and> \<not> dlt (dabs (dsub (m_amount (hd kept)) T)) hundredth
                          then T else sumAmounts (items d)))"
proof -
  from assms(2) have ne: "ms \<noteq> []" by auto
  have pos: "positive ms" by (rule extractAmounts_positive[OF assms(1)])
  let ?T = "totalAmountOf ms"
  let ?kept = "filter (\<lambda>m. m_amount m \<noteq> ?T) ms"
  have Tin: "?T \<in> m_amount ` set ms" by (rule totalAmountOf_in[OF ne])
  have Tmax: "\<forall>m \<in> set ms. \<not> dlt ?T (m_amount m)" using totalAmountOf_max[OF pos] by blast
  have Tpos: "posAmount ?T" by (rule totalAmountOf_positive[OF pos ne])
  have ret: "retained ms ?T = ?kept" using assms(2) by (simp add: retained_positive[OF Tpos])
  have "\<exists>d. handleGetEmailExpense t = Some (Inr d) \<and>
          items d = (if ?kept = [] then [syntheticItem ?T] else map (buildItem t) ?kept) \<and>
          total d = (if length ?kept = 1 \<and> \<not> dlt (dabs (dsub (m_amount (hd ?kept)) ?T)) hundredth
                     then ?T else sumAmounts (items d))"
  proof (cases "?kept")
    case Nil
    with ret assms(1) ne show ?thesis
      by (simp add: handleGetEmailExpense_def assemble_eq Let_def syntheticItem_def)
  next
    case (Cons k ks)
    show ?thesis
    proof (cases ks)
      case Nil
      with ret assms(1) ne Cons show ?thesis
        by (auto simp: handleGetEmailExpense_def assemble_eq Let_def)
    next
      case (Cons k' ks')
      with ret assms(1) ne \<open>?kept = k # ks\<close> show ?thesis
        by (simp add: handleGetEmailExpense_def assemble_eq Let_def)
    qed
  qed
  with Tin Tmax show ?thesis by (simp add: Let_def)
qed

theorem more_than_two_candidates_witness:
  "extractAmounts ''payment $9.00 $8.99'' =
     Some [\<lparr>m_amount = Num 9, m_text = ''$9.00'', m_index = 8\<rparr>,
           \<lparr>m_amount = Num (5060920081257595 / 562949953421312), m_text = ''$8.99'', m_index = 14\<rparr>,
           \<lparr>m_amount = Num 9, m_text = ''payment $9.00'', m_index = 0\<rparr>] \<and>
   roundDouble (899 / 100) = Num (5060920081257595 / 562949953421312) \<and>
   handleGetEmailExpense ''payment $9.00 $8.99'' =
     Some (Inr \<lparr>total = Num (5060920081257595 / 562949953421312),
                 items = [\<lparr>amount = Num (5060920081257595 / 562949953421312), title = ''Expense'',
                           head = ''unknown''\<rparr>]\<rparr>) \<and>
   handleGetEmailExpense ''payment $9 $1'' =
     Some (Inr \<lparr>total = Num 9,
                 items = [\<lparr>amount = Num 1, title = ''Expense'', head = ''unknown''\<rparr>]\<rparr>)"
proof -
  let ?x = "Num (5060920081257595 / 562949953421312)"
  let ?ms = "[\<lparr>m_amount = Num 9, m_text = ''$9.00'', m_index = 8\<rparr>,
              \<lparr>m_amount = ?x, m_text = ''$8.99'', m_index = 14\<rparr>,
              \<lparr>m_amount = Num 9, m_text = ''payment $9.00'', m_index = 0\<rparr>]"
  let ?ns = "[\<lparr>m_amount = Num 9, m_text = ''$9'', m_index = 8\<rparr>,
              \<lparr>m_amount = Num 1, m_text = ''$1'', m_index = 11\<rparr>,
              \<lparr>m_amount = Num 9, m_text = ''payment $9'', m_index = 0\<rparr>]"
  have T: "totalAmountOf ?ms = Num 9"
    by (simp add: totalAmountOf_def assemble_eval round_gap roundDouble_minus)
  have U: "totalAmountOf ?ns = Num 9"
    by (simp add: totalAmountOf_def assemble_eval)
  have near: "dlt (dabs (dsub ?x (Num 9))) hundredth"
    by (simp add: assemble_eval round_gap roundDouble_minus)
  have far: "\<not> dlt (dabs (dsub (Num 1) (Num 9))) hundredth"
    by (simp add: assemble_eval)
  from more_than_two_candidates[OF scan_threshold]
  obtain d where d: "handleGetEmailExpense ''payment $9.00 $8.99'' = Some (Inr d)"
    and i: "items d = [\<lparr>amount = ?x, title = ''Expense'', head = ''unknown''\<rparr>]"
    and t: "total d = ?x"
    unfolding T Let_def using near by (auto simp: item_threshold_1)
  from i t have dv: "d = \<lparr>total = ?x, items = [\<lparr>amount = ?x, title = ''Expense'', head = ''unknown''\<rparr>]\<rparr>"
    by (cases d) simp
  from more_than_two_candidates[OF scan_nine_one]
  obtain e where e: "handleGetEmailExpense ''payment $9 $1'' = Some (Inr e)"
    and j: "items e = [\<lparr>amount = Num 1, title = ''Expense'', head = ''unknown''\<rparr>]"
    and u: "total e = Num 9"
    unfolding U Let_def using far by (auto simp: item_nine_one_1)
  from j u have ev: "e = \<lparr>total = Num 9, items = [\<lparr>amount = Num 1, title = ''Expense'', head = ''unknown''\<rparr>]\<rparr>"
    by (cases e) simp
  from d dv e ev scan_threshold round_899 show ?thesis by simp
qed

subsection \<open>Exactly two candidates\<close>

text \<open>
  C3. When the scan yields exactly two candidates, both become line items, in the order of
  the scan, whatever their values: also when one of them, or each of two equal ones, equals
  the provisional total. The returned total is their floating-point sum.
\<close>

theorem two_candidates_retained:
  "extractAmounts t = Some [a, b] \<Longrightarrow>
   handleGetEmailExpense t =
     Some (Inr \<lparr>total = dadd (m_amount a) (m_amount b), items = [buildItem t a, buildItem t b]\<rparr>)"
  by (simp add: handleGetEmailExpense_def assemble_eq retained_def Let_def sumAmounts_def)

theorem two_candidates_retained_witness:
  "extractAmounts ''$5 $5'' =
     Some [\<lparr>m_amount = Num 5, m_text = ''$5'', m_index = 0\<rparr>,
           \<lparr>m_amount = Num 5, m_text = ''$5'', m_index = 3\<rparr>] \<and>
   handleGetEmailExpense ''$5 $5'' =
     Some (Inr \<lparr>total = Num 10,
                 items = [\<lparr>amount = Num 5, title = ''Expense'', head = ''unknown''\<rparr>,
                          \<lparr>amount = Num 5, title = ''Expense'', head = ''unknown''\<rparr>]\<rparr>)"
  using two_candidates_retained[OF scan_two_fives]
  by (simp add: scan_two_fives item_two_fives_1 item_two_fives_2)

subsection \<open>Candidates that share one value\<close>

text \<open>
  C4, as written, promises one synthetic line item whenever all candidates share one
  value, regardless of their number. In \<open>$5 $5\<close> there are two candidates of value 5,
  and both are kept: two line items and the total 10.
\<close>

theorem two_equal_candidates_two_items:
  "extractAmounts ''$5 $5'' =
     Some [\<lparr>m_amount = Num 5, m_text = ''$5'', m_index = 0\<rparr>,
           \<lparr>m_amount = Num 5, m_text = ''$5'', m_index = 3\<rparr>] \<and>
   handleGetEmailExpense ''$5 $5'' \<noteq> Some (Inr \<lparr>total = Num 5, items = [syntheticItem (Num 5)]\<rparr>)"
  by (simp add: scan_two_fives expense_two_fives)

text \<open>
  C4, amended: when all candidates share one value and their number is not two (one
  candidate, or three and more), the text pipeline returns that value as the total and
  exactly one synthetic line item with that amount, the title \<open>Expense from email\<close> and
  the category \<open>unknown\<close>.
\<close>

theorem single_value_synthetic:
  assumes "extractAmounts t = Some ms" and "ms \<noteq> []" and "\<forall>m \<in> set ms. m_amount m = v"
    and "length ms \<noteq> 2"
  shows "handleGetEmailExpense t = Some (Inr \<lparr>total = v, items = [syntheticItem v]\<rparr>)"
proof -
  have pos: "positive ms" by (rule extractAmounts_positive[OF assms(1)])
  have T: "totalAmountOf ms = v" using totalAmountOf_in[OF assms(2)] assms(3) by auto
  have vpos: "posAmount v" using totalAmountOf_positive[OF pos assms(2)] T by simp
  have "retained ms v = []"
  proof (cases "length ms > 1")
    case True
    with assms(4) have "length ms > 2" by simp
    with assms(3) show ?thesis by (simp add: retained_positive[OF vpos] filter_empty_conv)
  next
    case False
    then show ?thesis by (simp add: retained_def)
  qed
  with T assms(1,2) show ?thesis
    by (simp add: handleGetEmailExpense_def assemble_eq Let_def syntheticItem_def)
qed

theorem single_value_synthetic_witness:
  "extractAmounts ''payment $5 $5'' =
     Some [\<lparr>m_amount = Num 5, m_text = ''$5'', m_index = 8\<rparr>,
           \<lparr>m_amount = Num 5, m_text = ''$5'', m_index = 11\<rparr>,
           \<lparr>m_amount = Num 5, m_text = ''payment $5'', m_index = 0\<rparr>] \<and>
   handleGetEmailExpense ''payment $5 $5'' =
     Some (Inr \<lparr>total = Num 5,
                 items = [\<lparr>amount = Num 5, title = ''Expense from email'', head = ''unknown''\<rparr>]\<rparr>)"
  using single_value_synthetic[OF scan_three_fives, of "Num 5"]
  by (simp add: scan_three_fives syntheticItem_def)

subsection \<open>What a successful extraction returns\<close>

text \<open>
  C5, as written, promises a total that is at least 0 and finite whenever either pipeline
  succeeds. The structured pipeline only rejects a total that is falsy: a parsed bill with
  the total -5 passes and -5 is returned; one with the total \<open>abc\<close> passes and the total
  is not a number; one with the total \<open>1e400\<close> passes and the total is infinite. In the
  text pipeline the amount \<open>$1\<close> followed by 103 groups \<open>,000\<close> is read as infinity,
  and infinity is the total.
\<close>

theorem inadmissible_totals:
  "handleGetInvoiceData
     (JObject [(''total'', JNumber (Num (- 5))),
               (''items'', JArray [JObject [(''amount'', JNumber (Num 1)), (''title'', JString ''Fee''),
                                            (''head'', JString ''utility'')]])]) =
     Inr \<lparr>invoice_total = Num (- 5),
          invoice_items = [JObject [(''amount'', JNumber (Num 1)), (''title'', JString ''Fee''),
                                    (''head'', JString ''utility'')]]\<rparr> \<and>
   \<not> spec_totalOk (Num (- 5)) \<and>
   handleGetInvoiceData
     (JObject [(''total'', JString ''abc''),
               (''items'', JArray [JObject [(''amount'', JNumber (Num 1)), (''title'', JString ''Fee''),
                                            (''head'', JString ''utility'')]])]) =
     Inr \<lparr>invoice_total = NaN,
          invoice_items = [JObject [(''amount'', JNumber (Num 1)), (''title'', JString ''Fee''),
                                    (''head'', JString ''utility'')]]\<rparr> \<and>
   \<not> spec_totalOk NaN \<and>
   handleGetInvoiceData
     (JObject [(''total'', JString ''1e400''),
               (''items'', JArray [JObject [(''amount'', JNumber (Num 1)), (''title'', JString ''Fee''),
                                            (''head'', JString ''utility'')]])]) =
     Inr \<lparr>invoice_total = PosInf,
          invoice_items = [JObject [(''amount'', JNumber (Num 1)), (''title'', JString ''Fee''),
                                    (''head'', JString ''utility'')]]\<rparr> \<and>
   handleGetEmailExpense (''$1'' @ concat (replicate 103 '',000'')) =
     Some (Inr \<lparr>total = PosInf,
                 items = [\<lparr>amount = PosInf, title = ''Expense from email'', head = ''unknown''\<rparr>]\<rparr>) \<and>
   \<not> spec_totalOk PosInf"
proof -
  have a: "stringToNumber ''abc'' = NaN" by (simp add: number_eval)
  have b: "stringToNumber ''1e400'' = PosInf" by (simp add: number_eval roundDouble_overflow)
  have c: "handleGetEmailExpense (CHR ''$'' # CHR ''1'' # concat (replicate 103 '',000'')) =
     Some (Inr \<lparr>total = PosInf,
                 items = [\<lparr>amount = PosInf, title = ''Expense from email'', head = ''unknown''\<rparr>]\<rparr>)"
    by (rule expense_overflow[unfolded thousands_def])
  show ?thesis by (simp add: invoice_eval toNumber_def a b c spec_totalOk_def)
qed

text \<open>
  C5, amended: whenever the text pipeline succeeds, its items are not empty and its total
  is greater than 0 (a positive number or positive infinity). Whenever the structured
  pipeline succeeds, its items are not empty, the total of the parsed structure is truthy,
  and the returned total is the number that this total coerces to.
\<close>

theorem success_invariant:
  "(handleGetEmailExpense t = Some (Inr d) \<longrightarrow> items d \<noteq> [] \<and> dlt (Num 0) (total d)) \<and>
   (handleGetInvoiceData v = Inr e \<longrightarrow>
      invoice_items e \<noteq> [] \<and> truthy (getProp v ''total'') \<and>
      toNumber (getProp v ''total'') = Inr (invoice_total e))"
proof -
  have textual: "items d \<noteq> [] \<and> dlt (Num 0) (total d)" if "handleGetEmailExpense t = Some (Inr d)"
    using text_pipeline_invariant[OF that] by (simp add: posAmount_dlt)
  have structured: "invoice_items e \<noteq> [] \<and> truthy (getProp v ''total'') \<and>
      toNumber (getProp v ''total'') = Inr (invoice_total e)" if a: "handleGetInvoiceData v = Inr e"
  proof -
    from a have p: "processInvoice v = Inr e"
      by (simp add: handleGetInvoiceData_def split: sum.splits)
    then have ok: "truthy (getProp v ''total'')" "elements (getProp v ''items'') \<noteq> []"
      by (auto simp: processInvoice_def split: if_splits)
    from p obtain n ys where n: "toNumber (getProp v ''total'') = Inr n"
      and ys: "mapItems (elements (getProp v ''items'')) = Inr ys"
      and e: "e = \<lparr>invoice_total = n, invoice_items = ys\<rparr>"
      by (auto simp: processInvoice_def split: if_splits sum.splits)
    from mapItems_length[OF ys] ok(2) have "ys \<noteq> []" by auto
    with ok n e show ?thesis by simp
  qed
  from textual structured show ?thesis by blast
qed

theorem success_invariant_witness:
  "handleGetEmailExpense ''$5 $5'' =
     Some (Inr \<lparr>total = Num 10,
                 items = [\<lparr>amount = Num 5, title = ''Expense'', head = ''unknown''\<rparr>,
                          \<lparr>amount = Num 5, title = ''Expense'', head = ''unknown''\<rparr>]\<rparr>) \<and>
   dlt (Num 0) (Num 10) \<and>
   handleGetInvoiceData
     (JObject [(''total'', JString ''12.50''),
               (''items'', JArray [JObject [(''amount'', JNumber (Num (25 / 2))), (''title'', JString ''Milk''),
                                            (''head'', JString ''Food'')]])]) =
     Inr \<lparr>invoice_total = Num (25 / 2),
          invoice_items = [JObject [(''amount'', JNumber (Num (25 / 2))), (''title'', JString ''Milk''),
                                    (''head'', JString ''food'')]]\<rparr> \<and>
   truthy (JString ''12.50'') \<and>
   toNumber (JString ''12.50'') = Inr (Num (25 / 2))"
proof -
  let ?d = "\<lparr>total = Num 10,
              items = [\<lparr>amount = Num 5, title = ''Expense'', head = ''unknown''\<rparr>,
                       \<lparr>amount = Num 5, title = ''Expense'', head = ''unknown''\<rparr>]\<rparr>"
  let ?v = "JObject [(''total'', JString ''12.50''),
               (''items'', JArray [JObject [(''amount'', JNumber (Num (25 / 2))), (''title'', JString ''Milk''),
                                            (''head'', JString ''Food'')]])]"
  let ?e = "\<lparr>invoice_total = Num (25 / 2),
              invoice_items = [JObject [(''amount'', JNumber (Num (25 / 2))), (''title'', JString ''Milk''),
                                        (''head'', JString ''food'')]]\<rparr>"
  have n: "stringToNumber ''12.50'' = Num (25 / 2)"
    by (simp add: number_eval round_25_2)
  have b: "handleGetInvoiceData ?v = Inr ?e"
    by (simp add: invoice_eval toNumber_def n)
  from success_invariant[of "''$5 $5''" ?d ?v ?e] expense_two_fives b show ?thesis
    by simp
qed

subsection \<open>Validation of the parsed structure\<close>

text \<open>
  C6, as written, lets post-validation succeed whenever the total is present and numeric
  and the items are a non-empty list. A parsed bill with the total 0 and one well-formed
  item meets that condition and is rejected: the test on the total is a test for a truthy
  value.
\<close>

theorem zero_total_rejected:
  "spec_postValid
     (JObject [(''total'', JNumber (Num 0)),
               (''items'', JArray [JObject [(''amount'', JNumber (Num 0)), (''title'', JString ''Gift''),
                                            (''head'', JString ''gift'')]])]) \<and>
   handleGetInvoiceData
     (JObject [(''total'', JNumber (Num 0)),
               (''items'', JArray [JObject [(''amount'', JNumber (Num 0)), (''title'', JString ''Gift''),
                                            (''head'', JString ''gift'')]])]) =
     Inl FailedToProcessBill"
  by (simp add: invoice_eval spec_postValid_def)

text \<open>
  C6, amended: after a structure has been parsed, the call fails when the total of the
  structure is falsy (absent, \<open>null\<close>, \<open>false\<close>, 0, not a number, or the empty text)
  or its items are not a non-empty list. When the total is truthy and the items are a
  non-empty list, the call succeeds exactly when the total can be made a primitive (it is
  not an object with a property of its own named \<open>toString\<close>, nor an array holding one)
  and every item is an object whose category is a text and whose amount can be made a
  primitive; otherwise it fails with the same error. On success the returned total is the
  number the total coerces to and the items are kept one for one: in each the amount is
  the number its amount coerces to, the category is put in lower case and replaced by
  \<open>unknown\<close> when it is outside the vocabulary, and every other property is unchanged.
\<close>

theorem post_validation:
  "(\<not> truthy (getProp v ''total'') \<or> \<not> isArray (getProp v ''items'')
      \<or> elements (getProp v ''items'') = []
    \<longrightarrow> handleGetInvoiceData v = Inl FailedToProcessBill) \<and>
   (truthy (getProp v ''total'') \<and> isArray (getProp v ''items'')
      \<and> elements (getProp v ''items'') \<noteq> []
    \<longrightarrow> (if \<not> throwing (getProp v ''total'') \<and> list_all acceptable (elements (getProp v ''items''))
         then \<exists>d. handleGetInvoiceData v = Inr d \<and>
                  invoice_total d = numericValue (getProp v ''total'') \<and>
                  list_all2 normalized (elements (getProp v ''items'')) (invoice_items d)
         else handleGetInvoiceData v = Inl FailedToProcessBill))"
proof -
  have failing: "handleGetInvoiceData v = Inl FailedToProcessBill"
    if "\<not> truthy (getProp v ''total'') \<or> \<not> isArray (getProp v ''items'')
        \<or> elements (getProp v ''items'') = []"
    using that by (auto simp: handleGetInvoiceData_def processInvoice_def)
  have passing: "if \<not> throwing (getProp v ''total'') \<and> list_all acceptable (elements (getProp v ''items''))
         then \<exists>d. handleGetInvoiceData v = Inr d \<and>
                  invoice_total d = numericValue (getProp v ''total'') \<and>
                  list_all2 normalized (elements (getProp v ''items'')) (invoice_items d)
         else handleGetInvoiceData v = Inl FailedToProcessBill"
    if a: "truthy (getProp v ''total'') \<and> isArray (getProp v ''items'')
        \<and> elements (getProp v ''items'') \<noteq> []"
  proof -
    from a have tv: "truthy v" by (cases v) auto
    show ?thesis
    proof (cases "throwing (getProp v ''total'')")
      case True
      with a tv show ?thesis
        by (simp add: handleGetInvoiceData_def processInvoice_def toNumber_def)
    next
      case nt: False
      show ?thesis
      proof (cases "list_all acceptable (elements (getProp v ''items''))")
        case True
        then obtain ys where "mapItems (elements (getProp v ''items'')) = Inr ys"
          "list_all2 normalized (elements (getProp v ''items'')) ys"
          using mapItems_ok by blast
        with a tv nt True show ?thesis
          by (simp add: handleGetInvoiceData_def processInvoice_def toNumber_def)
      next
        case False
        then obtain e where "mapItems (elements (getProp v ''items'')) = Inl e"
          using mapItems_only by (cases "mapItems (elements (getProp v ''items''))") auto
        with a tv nt False show ?thesis
          by (simp add: handleGetInvoiceData_def processInvoice_def toNumber_def)
      qed
    qed
  qed
  from failing passing show ?thesis by blast
qed

theorem post_validation_witness:
  "\<not> truthy (getProp (JObject [(''items'', JArray [JNull])]) ''total'') \<and>
   handleGetInvoiceData (JObject [(''items'', JArray [JNull])]) = Inl FailedToProcessBill \<and>
   list_all acceptable
     [JObject [(''amount'', JString ''30''), (''title'', JString ''Taxi''), (''head'', JString ''TRAVEL'')],
      JObject [(''amount'', JNumber (Num 4)), (''title'', JString ''Apples''), (''head'', JString ''groceries'')]] \<and>
   handleGetInvoiceData
     (JObject [(''total'', JNumber (Num 34)),
               (''items'', JArray
                  [JObject [(''amount'', JString ''30''), (''title'', JString ''Taxi''),
                            (''head'', JString ''TRAVEL'')],
                   JObject [(''amount'', JNumber (Num 4)), (''title'', JString ''Apples''),
                            (''head'', JString ''groceries'')]])]) =
     Inr \<lparr>invoice_total = Num 34,
          invoice_items =
            [JObject [(''amount'', JNumber (Num 30)), (''title'', JString ''Taxi''),
                      (''head'', JString ''travel'')],
             JObject [(''amount'', JNumber (Num 4)), (''title'', JString ''Apples''),
                      (''head'', JString ''unknown'')]]\<rparr> \<and>
   throwing (JObject [(''valueOf'', JNumber (Num 1)), (''toString'', JNumber (Num 1))]) \<and>
   handleGetInvoiceData
     (JObject [(''total'', JObject [(''valueOf'', JNumber (Num 1)), (''toString'', JNumber (Num 1))]),
               (''items'', JArray
                  [JObject [(''amount'', JNumber (Num 4)), (''title'', JString ''Apples''),
                            (''head'', JString ''groceries'')]])]) =
     Inl FailedToProcessBill"
proof -
  have n: "stringToNumber ''30'' = Num 30" by (simp add: number_eval)
  show ?thesis
    using post_validation[of "JObject [(''items'', JArray [JNull])]"]
      post_validation[of "JObject [(''total'', JNumber (Num 34)),
               (''items'', JArray
                  [JObject [(''amount'', JString ''30''), (''title'', JString ''Taxi''),
                            (''head'', JString ''TRAVEL'')],
                   JObject [(''amount'', JNumber (Num 4)), (''title'', JString ''Apples''),
                            (''head'', JString ''groceries'')]])]"]
      post_validation[of "JObject [(''total'', JObject [(''valueOf'', JNumber (Num 1)), (''toString'', JNumber (Num 1))]),
               (''items'', JArray
                  [JObject [(''amount'', JNumber (Num 4)), (''title'', JString ''Apples''),
                            (''head'', JString ''groceries'')]])]"]
    by (simp add: invoice_eval toNumber_def n acceptable_def hasStringHead_def)
qed

subsection \<open>The classifier\<close>

text \<open>
  C7. For every text the classifier returns one of the twelve categories food, rent,
  travel, utility, entertainment, shopping, health, education, gift, fitness, investment
  and unknown; it is a total function, so it never raises; and when no keyword of the table
  occurs in the text it returns \<open>unknown\<close>.
\<close>

theorem determineCategory_total:
  "determineCategory s \<in> set validHeads \<and>
   ((\<forall>(c, ks) \<in> set categoryKeywords. \<forall>k \<in> set ks. \<not> includes_str s k)
      \<longrightarrow> determineCategory s = ''unknown'')"
proof -
  have "fst ` set categoryKeywords \<subseteq> set validHeads"
    by (simp add: categoryKeywords_def validHeads_def)
  moreover have "''unknown'' \<in> set validHeads" by (simp add: validHeads_def)
  ultimately have "determineCategory s \<in> set validHeads"
    using firstCategory_range[of categoryKeywords s] by (auto simp: determineCategory_def)
  then show ?thesis by (simp add: determineCategory_def firstCategory_unknown)
qed

theorem determineCategory_total_witness:
  "determineCategory ''hello'' \<in> set validHeads \<and> determineCategory ''hello'' = ''unknown''"
proof -
  have "\<forall>(c, ks) \<in> set categoryKeywords. \<forall>k \<in> set ks. \<not> includes_str ''hello'' k"
    by (simp add: categoryKeywords_def)
  with determineCategory_total[of "''hello''"] show ?thesis by blast
qed

text \<open>
  C8. The classification of a context does not depend on case. The keyword search compares
  characters as they are, and its only caller, the text pipeline, puts the window around a
  match in lower case before the search. So the category of a line item is the first
  category of the table one of whose keywords occurs in the lower-case form of the window,
  and \<open>unknown\<close> when there is none: the classifier of the specification, which gives
  every text the category of its lower-case form. Two texts with the same lower-case form
  give a candidate the same category.
\<close>

theorem classification_case_insensitive:
  "head (buildItem t m) = spec_classify (contextWindow t m) \<and>
   spec_classify (toLowerCase s) = spec_classify s \<and>
   (toLowerCase t' = toLowerCase t \<longrightarrow> head (buildItem t' m) = head (buildItem t m))"
proof -
  have "head (buildItem t m) = spec_classify (contextWindow t m)"
    by (simp add: buildItem_def Let_def surrounding_window spec_classify_eq toLowerCase_idem)
  moreover have "spec_classify (toLowerCase s) = spec_classify s"
    by (simp add: spec_classify_eq toLowerCase_idem)
  moreover have "head (buildItem t' m) = head (buildItem t m)" if "toLowerCase t' = toLowerCase t"
    using surrounding_case[OF that] by (simp add: buildItem_def Let_def)
  ultimately show ?thesis by blast
qed

theorem classification_case_insensitive_witness:
  "toLowerCase ''FOOD $5 $6'' = toLowerCase ''food $5 $6'' \<and>
   handleGetEmailExpense ''FOOD $5 $6'' =
     Some (Inr \<lparr>total = Num 11,
                 items = [\<lparr>amount = Num 5, title = ''Expense'', head = ''food''\<rparr>,
                          \<lparr>amount = Num 6, title = ''Expense'', head = ''food''\<rparr>]\<rparr>) \<and>
   head (buildItem ''FOOD $5 $6'' \<lparr>m_amount = Num 5, m_text = ''$5'', m_index = 5\<rparr>) = ''food'' \<and>
   head (buildItem ''food $5 $6'' \<lparr>m_amount = Num 5, m_text = ''$5'', m_index = 5\<rparr>) = ''food'' \<and>
   spec_classify ''FOOD $5 $6'' = ''food''"
proof -
  let ?m = "\<lparr>m_amount = Num 5, m_text = ''$5'', m_index = 5\<rparr>"
  have l: "toLowerCase ''FOOD $5 $6'' = toLowerCase ''food $5 $6''"
    by (simp add: toLowerCase_def lowerChar_table)
  have w: "contextWindow ''FOOD $5 $6'' ?m = ''FOOD $5 $6''"
    by (simp add: contextWindow_def substring_def)
  have u: "head (buildItem ''FOOD $5 $6'' ?m) = ''food''" by (simp add: item_upper_1)
  from classification_case_insensitive[of "''FOOD $5 $6''" ?m "''FOOD $5 $6''" "''food $5 $6''"] l w u
  have "spec_classify ''FOOD $5 $6'' = ''food''"
    and "head (buildItem ''food $5 $6'' ?m) = ''food''"
    by simp_all
  with l u expense_upper show ?thesis by simp
qed

subsection \<open>Amounts of more than three digits\<close>

text \<open>
  C9. The digits of an amount are matched one to three at a time, more only after a
  comma. In the text \<open>$1234.56\<close> the scan therefore finds exactly one candidate, the
  match \<open>$123\<close> at position 0 with the value 123, and not 1234.56.
\<close>

theorem extractAmounts_four_digits:
  "extractAmounts ''$1234.56'' = Some [\<lparr>m_amount = Num 123, m_text = ''$123'', m_index = 0\<rparr>]"
  by (simp add: evt)

subsection \<open>Titles on the path with several candidates\<close>



end
